theory Spec2Isabelle
  imports Main
begin

section \<open>Python strings\<close>

text \<open>
  Python's \<open>str\<close> is modelled as \<^typ>\<open>string\<close>: a text is a list of code points below
  256 (Latin-1). The primitives below are the \<open>str\<close> methods the repair agent calls,
  restricted to that alphabet.
\<close>

definition NL :: char where
  "NL = CHR 0x0A"

definition CR :: char where
  "CR = CHR 0x0D"

definition py_isspace :: "char \<Rightarrow> bool" where
  \<comment> \<open>\<open>str.isspace\<close> on one code point: TAB, LF, VT, FF, CR, FS, GS, RS, US, space, NEL, NBSP.\<close>
  "py_isspace c \<longleftrightarrow> c \<in> set [CHR 0x09, CHR 0x0A, CHR 0x0B, CHR 0x0C, CHR 0x0D,
     CHR 0x1C, CHR 0x1D, CHR 0x1E, CHR 0x1F, CHR 0x20, CHR 0x85, CHR 0xA0]"

definition lstrip :: "string \<Rightarrow> string" where
  "lstrip s = dropWhile py_isspace s"

definition rstrip :: "string \<Rightarrow> string" where
  "rstrip s = rev (dropWhile py_isspace (rev s))"

definition strip :: "string \<Rightarrow> string" where
  "strip s = rstrip (lstrip s)"

definition lower_char :: "char \<Rightarrow> char" where
  \<comment> \<open>\<open>A\<close>..\<open>Z\<close> and the Latin-1 capitals 0xC0..0xDE (without the multiplication sign 0xD7).\<close>
  "lower_char c =
     (let n = (of_char c :: nat)
      in if (65 \<le> n \<and> n \<le> 90) \<or> (192 \<le> n \<and> n \<le> 222 \<and> n \<noteq> 215)
         then char_of (n + 32) else c)"

definition lower :: "string \<Rightarrow> string" where
  "lower s = map lower_char s"

definition upper_char :: "char \<Rightarrow> string" where
  \<comment> \<open>\<open>str.upper\<close> on one code point. The sharp s (0xDF) becomes \<open>SS\<close>. The micro sign
      (0xB5) and y with diaeresis (0xFF) have capitals outside Latin-1 (U+039C, U+0178);
      they stand for their own capitals here, which are no ASCII letters either.\<close>
  "upper_char c =
     (let n = (of_char c :: nat)
      in if (97 \<le> n \<and> n \<le> 122) \<or> (224 \<le> n \<and> n \<le> 254 \<and> n \<noteq> 247)
         then [char_of (n - 32)]
         else if n = 223 then ''SS'' else [c])"

definition upper :: "string \<Rightarrow> string" where
  "upper s = concat (map upper_char s)"

definition startswith :: "string \<Rightarrow> string \<Rightarrow> bool" where
  "startswith s p \<longleftrightarrow> take (length p) s = p"

definition endswith :: "string \<Rightarrow> string \<Rightarrow> bool" where
  "endswith s p \<longleftrightarrow> length p \<le> length s \<and> drop (length s - length p) s = p"

fun py_in :: "string \<Rightarrow> string \<Rightarrow> bool" where
  \<comment> \<open>\<open>t in s\<close>, written \<open>py_in t s\<close>: \<open>t\<close> occurs in \<open>s\<close> as a contiguous run.\<close>
  "py_in t [] = (t = [])"
| "py_in t (c # s) = (startswith (c # s) t \<or> py_in t s)"

fun split_on :: "char \<Rightarrow> string \<Rightarrow> string list" where
  \<comment> \<open>\<open>s.split(sep)\<close> for a one-character separator: always at least one piece.\<close>
  "split_on sep [] = [[]]"
| "split_on sep (c # s) =
     (if c = sep then [] # split_on sep s
      else (case split_on sep s of p # ps \<Rightarrow> (c # p) # ps | [] \<Rightarrow> [[c]]))"

definition is_linebreak :: "char \<Rightarrow> bool" where
  \<comment> \<open>The line boundaries of \<open>str.splitlines\<close> below 256; CR LF counts as one.\<close>
  "is_linebreak c \<longleftrightarrow> c \<in> set [CHR 0x0A, CHR 0x0B, CHR 0x0C, CHR 0x0D,
     CHR 0x1C, CHR 0x1D, CHR 0x1E, CHR 0x85]"

fun splitlines_acc :: "string \<Rightarrow> string \<Rightarrow> string list" where
  \<comment> \<open>\<open>cur\<close> is the line being read, reversed.\<close>
  "splitlines_acc cur [] = (if cur = [] then [] else [rev cur])"
| "splitlines_acc cur (c # s) =
     (if c = CR \<and> s \<noteq> [] \<and> hd s = NL then rev cur # splitlines_acc [] (tl s)
      else if is_linebreak c then rev cur # splitlines_acc [] s
      else splitlines_acc (c # cur) s)"

definition splitlines :: "string \<Rightarrow> string list" where
  "splitlines s = splitlines_acc [] s"

fun readlines_acc :: "string \<Rightarrow> string \<Rightarrow> string list" where
  \<comment> \<open>\<open>f.readlines()\<close>: the lines keep their LF; a last line without one is kept too.\<close>
  "readlines_acc cur [] = (if cur = [] then [] else [rev cur])"
| "readlines_acc cur (c # s) =
     (if c = NL then rev (c # cur) # readlines_acc [] s
      else readlines_acc (c # cur) s)"

definition readlines :: "string \<Rightarrow> string list" where
  "readlines s = readlines_acc [] s"

fun universal_newlines :: "string \<Rightarrow> string" where
  \<comment> \<open>Text-mode reading: CR LF and a lone CR both arrive as LF.\<close>
  "universal_newlines [] = []"
| "universal_newlines (c # s) =
     (if c = CR then (if s \<noteq> [] \<and> hd s = NL then NL # universal_newlines (tl s)
                      else NL # universal_newlines s)
      else c # universal_newlines s)"

definition digit_char :: "nat \<Rightarrow> char" where
  "digit_char d = char_of (48 + d)"

fun str_nat :: "nat \<Rightarrow> string" where
  "str_nat n = (if n < 10 then [digit_char n] else str_nat (n div 10) @ [digit_char (n mod 10)])"

definition str_int :: "int \<Rightarrow> string" where
  \<comment> \<open>\<open>str(i)\<close> of an integer.\<close>
  "str_int i = (if i < 0 then CHR ''-'' # str_nat (nat (- i)) else str_nat (nat i))"

definition is_digit :: "char \<Rightarrow> bool" where
  \<comment> \<open>\<open>\<bslash>d\<close> below 256: the ten ASCII digits.\<close>
  "is_digit c \<longleftrightarrow> (let n = (of_char c :: nat) in 48 \<le> n \<and> n \<le> 57)"

definition int_of_digits :: "string \<Rightarrow> int" where
  \<comment> \<open>\<open>int(ds)\<close> of a non-empty run of digits (of any length: the digit limit that
      recent interpreters put on the conversion is not modelled).\<close>
  "int_of_digits ds = foldl (\<lambda>a c. 10 * a + (int (of_char c) - 48)) 0 ds"

section \<open>Defect localisation (agent\_graph.py)\<close>

definition identify_error_type :: "string \<Rightarrow> string" where
  "identify_error_type test_output =
     (let error_output_lower = lower test_output
      in if py_in ''indexerror'' error_output_lower
           then ''Index Error (likely off-by-one or boundary issue)''
         else if py_in ''keyerror'' error_output_lower
           then ''Key Error (missing dictionary key)''
         else if py_in ''typeerror'' error_output_lower
           then ''Type Error (incorrect data type usage)''
         else if py_in ''valueerror'' error_output_lower
           then ''Value Error (invalid value)''
         else if py_in ''nameerror'' error_output_lower
           then ''Name Error (undefined variable)''
         else if py_in ''assertion'' error_output_lower
           then ''Logic Error (incorrect algorithm behavior)''
         else if py_in ''infinite'' error_output_lower \<or> py_in ''timeout'' error_output_lower
           then ''Infinite Loop or Performance Issue''
         else ''General Error'')"

text \<open>
  The five regular expressions of \<open>extract_error_line_number\<close> are sequences of three
  kinds of items: a literal (compared case-insensitively, as \<open>re.IGNORECASE\<close> asks),
  \<open>[^"]+\<close> and the group \<open>(\<bslash>d+)\<close>. In these patterns a greedy item is always followed by
  a literal that starts with a character the item cannot consume (or by the end of the
  pattern), so backtracking never finds a match that the greedy reading misses.
\<close>

datatype rx = Lit string | NotQuotes | Digits

fun rx_match :: "rx list \<Rightarrow> string \<Rightarrow> string \<Rightarrow> string option" where
  \<comment> \<open>Match at the start of the text; the result is group 1.\<close>
  "rx_match [] s g = Some g"
| "rx_match (Lit l # r) s g =
     (if length l \<le> length s \<and> lower (take (length l) s) = lower l
      then rx_match r (drop (length l) s) g else None)"
| "rx_match (NotQuotes # r) s g =
     (let a = takeWhile (\<lambda>c. c \<noteq> CHR 0x22) s
      in if a = [] then None else rx_match r (drop (length a) s) g)"
| "rx_match (Digits # r) s g =
     (let d = takeWhile is_digit s
      in if d = [] then None else rx_match r (drop (length d) s) d)"

fun re_search :: "rx list \<Rightarrow> string \<Rightarrow> string option" where
  \<comment> \<open>\<open>re.search\<close>: the leftmost position where the pattern matches.\<close>
  "re_search p [] = rx_match p [] []"
| "re_search p (c # s) =
     (case rx_match p (c # s) [] of Some g \<Rightarrow> Some g | None \<Rightarrow> re_search p s)"

definition patterns :: "rx list list" where
  "patterns =
     [[Lit ''line '', Digits],
      [Lit (''File '' @ [CHR 0x22]), NotQuotes, Lit ([CHR 0x22] @ '', line ''), Digits],
      [Lit ''Error on line '', Digits],
      [Lit ''at line '', Digits],
      [Lit ''Line '', Digits, Lit '':'']]"

fun first_match :: "rx list list \<Rightarrow> string \<Rightarrow> int" where
  \<comment> \<open>The \<open>for pattern in patterns\<close> loop, with its default after the loop.\<close>
  "first_match [] test_output = 1"
| "first_match (pattern # ps) test_output =
     (case re_search pattern test_output of
        Some g \<Rightarrow> int_of_digits g
      | None \<Rightarrow> first_match ps test_output)"

definition extract_error_line_number :: "string \<Rightarrow> int" where
  "extract_error_line_number test_output = first_match patterns test_output"

fun py_join :: "string \<Rightarrow> string list \<Rightarrow> string" where
  "py_join sep [] = []"
| "py_join sep [x] = x"
| "py_join sep (x # y # ys) = x @ sep @ py_join sep (y # ys)"

definition fmt_3d :: "int \<Rightarrow> string" where
  \<comment> \<open>The format \<open>{line_num:3d}\<close>: right-aligned in three columns.\<close>
  "fmt_3d i = (let t = str_int i in replicate (3 - length t) CHR '' '' @ t)"

definition get_code_context :: "string \<Rightarrow> int \<Rightarrow> int \<Rightarrow> string" where
  "get_code_context code line_no radius =
     (let lines = splitlines code;
          start_idx = max 0 (line_no - 1 - radius);
          end_idx = min (int (length lines)) (line_no + radius)
      in py_join [NL]
           (map (\<lambda>i. let line_num = int i + 1;
                         marker = (if line_num = line_no then ''>>> '' else ''    '')
                     in marker @ fmt_3d line_num @ '': '' @ lines ! i)
                [nat start_idx ..< nat end_idx]))"

section \<open>The tools (tools.py)\<close>

text \<open>
  The outside world of a repair session: the files (what reading a path gives), the
  error that opening a path for writing raises (if any), and the number of test-harness
  runs so far. Files are stored as written; reading applies the newline translation of
  Python's text mode (on a POSIX system writing applies none).
\<close>

datatype file_entry =
    NotFound string    \<comment> \<open>reading raises FileNotFoundError with this text\<close>
  | Unreadable string  \<comment> \<open>reading raises another exception with this text\<close>
  | Content string

record world =
  files :: "string \<Rightarrow> file_entry"
  write_error :: "string \<Rightarrow> string option"
  test_runs :: nat

datatype py_exn =
    FileNotFoundError string
  | ValueError string
  | IndexError string
  | OSError string
  | Exception string

fun str_exn :: "py_exn \<Rightarrow> string" where
  \<comment> \<open>\<open>str(e)\<close>\<close>
  "str_exn (FileNotFoundError m) = m"
| "str_exn (ValueError m) = m"
| "str_exn (IndexError m) = m"
| "str_exn (OSError m) = m"
| "str_exn (Exception m) = m"

definition LoadCodeTool :: "world \<Rightarrow> string \<Rightarrow> py_exn + string" where
  "LoadCodeTool w path =
     (case files w path of
        Content raw \<Rightarrow> Inr (universal_newlines raw)
      | NotFound m \<Rightarrow> Inl (FileNotFoundError (''Could not find file: '' @ path))
      | Unreadable m \<Rightarrow> Inl (Exception (''Error reading file '' @ path @ '': '' @ m)))"

datatype proc_result =
    Completed string string  \<comment> \<open>stdout and stderr of the finished process\<close>
  | TimeoutExpired
  | RunFailed string         \<comment> \<open>any other exception of \<open>subprocess.run\<close>, with its text\<close>

record prompt_input =
  prompt_function_context :: string
  prompt_error_type :: string
  prompt_code_context :: string
  prompt_error_line :: int
  prompt_test_output :: string
  prompt_attempt_num :: int

text \<open>
  The collaborators the agent does not implement: whether building the tools and the
  language-model client raises (\<open>initialize_tools_and_llm\<close> is called at the start of
  every stage but the last), the test harness (a process run in the current world on a
  file name) and the language model, from the prompt to the content of its response;
  \<open>Inl\<close> is the text of the exception a call raises.
\<close>

record env =
  init_failure :: "string option"
  subprocess_run :: "world \<Rightarrow> string \<Rightarrow> proc_result"
  gemini_invoke :: "string \<Rightarrow> string + string"

definition basename :: "string \<Rightarrow> string" where
  "basename p = rev (takeWhile (\<lambda>c. c \<noteq> CHR ''/'') (rev p))"

definition RunTestsTool :: "env \<Rightarrow> world \<Rightarrow> string \<Rightarrow> world \<times> string" where
  "RunTestsTool e w file_path =
     (let filename = basename file_path;
          w' = w\<lparr>test_runs := test_runs w + 1\<rparr>
      in case subprocess_run e w filename of
           Completed out err \<Rightarrow>
             (let output = out @ err
              in (w', if strip output \<noteq> [] then output else ''No test output generated''))
         | TimeoutExpired \<Rightarrow> (w', ''ERROR: Test execution timed out after 30 seconds'')
         | RunFailed m \<Rightarrow> (w', ''ERROR: Failed to run tests - '' @ m))"

definition apply_error :: "string \<Rightarrow> int \<Rightarrow> py_exn \<Rightarrow> py_exn" where
  \<comment> \<open>The outer \<open>except\<close> of \<open>ApplyPatchTool.__call__\<close>.\<close>
  "apply_error file_path line_no e =
     Exception (''Error applying patch to '' @ file_path @ '' at line '' @ str_int line_no
                @ '': '' @ str_exn e)"

definition patched_line :: "string \<Rightarrow> string \<Rightarrow> string" where
  \<comment> \<open>What replaces \<open>original_line\<close> when \<open>new_line\<close> is applied to it.\<close>
  "patched_line original_line new_line =
     (let original_indent = length original_line - length (lstrip original_line);
          new_line1 =
            (if strip new_line \<noteq> [] \<and> \<not> startswith new_line (replicate original_indent CHR '' '')
             then replicate original_indent CHR '' '' @ strip new_line
             else new_line)
      in if \<not> endswith new_line1 [NL] then new_line1 @ [NL] else new_line1)"

definition ApplyPatchTool :: "world \<Rightarrow> string \<Rightarrow> int \<Rightarrow> string \<Rightarrow> world \<times> (py_exn + string)" where
  \<comment> \<open>The world after the call, and what the call raises (\<open>Inl\<close>) or returns.\<close>
  "ApplyPatchTool w file_path line_no new_line =
     (case files w file_path of
        NotFound m \<Rightarrow> (w, Inl (apply_error file_path line_no (FileNotFoundError m)))
      | Unreadable m \<Rightarrow> (w, Inl (apply_error file_path line_no (OSError m)))
      | Content raw \<Rightarrow>
          (let lines = readlines (universal_newlines raw)
           in if line_no < 1 \<or> line_no > int (length lines)
              then (w, Inl (apply_error file_path line_no
                     (ValueError (''Line number '' @ str_int line_no @ '' is out of range (1-''
                                  @ str_int (int (length lines)) @ '')''))))
              else
                (let lines' = lines[nat (line_no - 1) :=
                                patched_line (lines ! nat (line_no - 1)) new_line]
                 in case write_error w file_path of
                      Some m \<Rightarrow> (w, Inl (apply_error file_path line_no (OSError m)))
                    | None \<Rightarrow>
                        (w\<lparr>files := (files w)(file_path := Content (concat lines'))\<rparr>,
                         Inr (concat lines')))))"

function replace_str :: "string \<Rightarrow> string \<Rightarrow> string \<Rightarrow> string" where
  \<comment> \<open>\<open>s.replace(old, new)\<close> for a non-empty \<open>old\<close>.\<close>
  "replace_str old new s =
     (if s = [] \<or> old = [] then s
      else if startswith s old then new @ replace_str old new (drop (length old) s)
      else hd s # replace_str old new (tl s))"
  by pat_completeness auto
termination
  by (relation "measure (\<lambda>(old, new, s). length s)") auto

record fn_context =
  function_name :: "string option"
  function_start_line :: "int option"
  error_line :: int
  context_lines :: "string list"
  context_start_line :: int

fun find_function :: "string list \<Rightarrow> nat \<Rightarrow> py_exn + (int \<times> string) option" where
  \<comment> \<open>The loop \<open>for i in range(line_no - 1, -1, -1)\<close>; the second argument is \<open>i + 1\<close>.\<close>
  "find_function lines 0 = Inr None"
| "find_function lines (Suc i) =
     (if length lines \<le> i then Inl (IndexError ''list index out of range'')
      else (let line = strip (lines ! i)
            in if startswith line ''def ''
               then Inr (Some (int i + 1,
                      strip (replace_str ''def '' [] (hd (split_on CHR ''('' line)))))
               else find_function lines i))"

definition py_slice :: "'a list \<Rightarrow> int \<Rightarrow> int \<Rightarrow> 'a list" where
  \<comment> \<open>\<open>xs[a:b]\<close>: a negative bound counts from the end, and both are clamped.\<close>
  "py_slice xs a b =
     (let n = int (length xs);
          norm = (\<lambda>i. if i < 0 then max 0 (n + i) else min n i)
      in drop (nat (norm a)) (take (nat (norm b)) xs))"

definition get_function_context :: "string \<Rightarrow> int \<Rightarrow> py_exn + fn_context" where
  "get_function_context code line_no =
     (let lines = splitlines code
      in case find_function lines (nat line_no) of
           Inl e \<Rightarrow> Inl e
         | Inr found \<Rightarrow>
             (let context_start = max 0 (line_no - 5);
                  context_end = min (int (length lines)) (line_no + 5)
              in Inr \<lparr>function_name = map_option snd found,
                      function_start_line = map_option fst found,
                      error_line = line_no,
                      context_lines = py_slice lines context_start context_end,
                      context_start_line = context_start + 1\<rparr>))"

section \<open>The repair session and its stages (agent\_graph.py)\<close>

record APRState =
  file_path :: string
  original_code :: string
  current_code :: string
  error_line_no :: int
  patch_line :: string
  test_output :: string
  tests_passed :: bool
  attempts :: int
  max_attempts :: int
  success :: bool
  error_message :: string
  function_context :: "fn_context option"  \<comment> \<open>\<open>None\<close> is the empty dict of a new session\<close>

definition initial_state :: "string \<Rightarrow> APRState" where
  \<comment> \<open>The session that \<open>main\<close> (and the batch driver) start from.\<close>
  "initial_state path =
     \<lparr>file_path = path, original_code = [], current_code = [], error_line_no = 0,
      patch_line = [], test_output = [], tests_passed = False, attempts = 0,
      max_attempts = 3, success = False, error_message = [], function_context = None\<rparr>"

definition output_passes :: "string \<Rightarrow> bool" where
  \<comment> \<open>\<open>'FAIL' not in test_output.upper() and 'ERROR' not in test_output.upper()\<close>\<close>
  "output_passes out \<longleftrightarrow> \<not> py_in ''FAIL'' (upper out) \<and> \<not> py_in ''ERROR'' (upper out)"

definition load_code_node :: "env \<Rightarrow> world \<Rightarrow> APRState \<Rightarrow> world \<times> APRState" where
  "load_code_node e w state =
     (case init_failure e of
        Some m \<Rightarrow> (w, state\<lparr>error_message := ''Failed to load code: '' @ m, success := False\<rparr>)
      | None \<Rightarrow>
          (case LoadCodeTool w (file_path state) of
             Inr code \<Rightarrow>
               (w, state\<lparr>original_code := code, current_code := code, error_message := []\<rparr>)
           | Inl ex \<Rightarrow>
               (w, state\<lparr>error_message := ''Failed to load code: '' @ str_exn ex,
                         success := False\<rparr>)))"

definition localize_defect_node :: "env \<Rightarrow> world \<Rightarrow> APRState \<Rightarrow> world \<times> APRState" where
  "localize_defect_node e w state =
     (case init_failure e of
        Some m \<Rightarrow>
          (w, state\<lparr>error_message := ''Failed to localize defect: '' @ m, success := False\<rparr>)
      | None \<Rightarrow>
          (let (w', out) = RunTestsTool e w (file_path state);
               error_line = extract_error_line_number out
           in case get_function_context (current_code state) error_line of
                Inl ex \<Rightarrow>
                  (w', state\<lparr>error_message := ''Failed to localize defect: '' @ str_exn ex,
                             success := False\<rparr>)
              | Inr fc \<Rightarrow>
                  (w', state\<lparr>test_output := out, error_line_no := error_line,
                             function_context := Some fc,
                             tests_passed := output_passes out\<rparr>)))"

fun first_code_line :: "string list \<Rightarrow> string option" where
  \<comment> \<open>The loop over the lines of a fenced response: the first line that is not blank
      and does not start (after trimming) with a fence, if there is one.\<close>
  "first_code_line [] = None"
| "first_code_line (line # lines) =
     (if strip line \<noteq> [] \<and> \<not> startswith (strip line) ''```'' then Some line
      else first_code_line lines)"

definition clean_response :: "string \<Rightarrow> string" where
  \<comment> \<open>From \<open>response.content\<close> to \<open>patch_line\<close> in \<open>generate_patch_node\<close>.\<close>
  "clean_response content =
     (let patch_line = strip content
      in if py_in ''```'' patch_line
         then (case first_code_line (split_on NL patch_line) of
                 Some line \<Rightarrow> line
               | None \<Rightarrow> patch_line)
         else patch_line)"

definition repair_prompt_format :: "prompt_input \<Rightarrow> string" where
  \<comment> \<open>\<open>repair_prompt.format(**prompt_input)\<close>\<close>
  "repair_prompt_format p =
     py_join [NL]
       [''You are an expert Python debugging assistant specializing in algorithmic bug fixes.'',
        [],
        ''CONTEXT:'',
        ''- Function: '' @ prompt_function_context p,
        ''- Error Type: '' @ prompt_error_type p,
        ''- This is attempt #'' @ str_int (prompt_attempt_num p),
        [],
        ''FAULTY CODE (line '' @ str_int (prompt_error_line p) @ '' marked with >>>):'',
        ''```python'',
        prompt_code_context p,
        ''```'',
        [],
        ''TEST FAILURE OUTPUT:'',
        ''```'',
        prompt_test_output p,
        ''```'',
        [],
        ''INSTRUCTIONS:'',
        ''1. Analyze the error carefully - this is likely a QuixBugs algorithmic defect'',
        ''2. Common QuixBugs issues: off-by-one errors, wrong operators, incorrect boundary conditions, missing edge cases'',
        ''3. Focus on the EXACT line marked with >>> - provide only the corrected version of that line'',
        ''4. Maintain the same indentation and code style'',
        ''5. Do not add explanations, comments, or multiple lines'',
        [],
        ''RESPONSE FORMAT:'',
        ''Provide ONLY the corrected line '' @ str_int (prompt_error_line p)
          @ '' with proper indentation:'']"

definition build_prompt_input :: "APRState \<Rightarrow> prompt_input" where
  "build_prompt_input state =
     (let error_type = identify_error_type (test_output state);
          code_context = get_code_context (current_code state) (error_line_no state) 3;
          fname = (case function_context state of
                     None \<Rightarrow> Some ''unknown''
                   | Some fc \<Rightarrow> function_name fc)
      in \<lparr>prompt_function_context =
            (if fname \<noteq> Some ''unknown''
             then ''Function '' @ [CHR 0x27] @ (case fname of None \<Rightarrow> ''None'' | Some n \<Rightarrow> n)
                  @ [CHR 0x27]
             else ''Code section''),
          prompt_error_type = error_type,
          prompt_code_context = code_context,
          prompt_error_line = error_line_no state,
          prompt_test_output = drop (length (test_output state) - 500) (test_output state),
          prompt_attempt_num = attempts state + 1\<rparr>)"

definition generate_patch_node :: "env \<Rightarrow> world \<Rightarrow> APRState \<Rightarrow> world \<times> APRState" where
  "generate_patch_node e w state =
     (case init_failure e of
        Some m \<Rightarrow>
          (w, state\<lparr>error_message := ''Failed to generate patch: '' @ m, success := False\<rparr>)
      | None \<Rightarrow>
          (case gemini_invoke e (repair_prompt_format (build_prompt_input state)) of
             Inl m \<Rightarrow>
               (w, state\<lparr>error_message := ''Failed to generate patch: '' @ m,
                         success := False\<rparr>)
           | Inr content \<Rightarrow>
               (w, state\<lparr>patch_line := clean_response content,
                         attempts := attempts state + 1\<rparr>)))"

definition apply_patch_node :: "env \<Rightarrow> world \<Rightarrow> APRState \<Rightarrow> world \<times> APRState" where
  "apply_patch_node e w state =
     (case init_failure e of
        Some m \<Rightarrow>
          (w, state\<lparr>error_message := ''Failed to apply patch: '' @ m, success := False\<rparr>)
      | None \<Rightarrow>
          (case ApplyPatchTool w (file_path state) (error_line_no state) (patch_line state) of
             (w', Inr patched_code) \<Rightarrow> (w', state\<lparr>current_code := patched_code\<rparr>)
           | (w', Inl ex) \<Rightarrow>
               (w', state\<lparr>error_message := ''Failed to apply patch: '' @ str_exn ex,
                          success := False\<rparr>)))"

definition validate_patch_node :: "env \<Rightarrow> world \<Rightarrow> APRState \<Rightarrow> world \<times> APRState" where
  "validate_patch_node e w state =
     (case init_failure e of
        Some m \<Rightarrow>
          (w, state\<lparr>error_message := ''Failed to validate patch: '' @ m, success := False\<rparr>)
      | None \<Rightarrow>
          (let (w', out) = RunTestsTool e w (file_path state)
           in (w', state\<lparr>test_output := out, tests_passed := output_passes out\<rparr>)))"

definition finish_success_node :: "env \<Rightarrow> world \<Rightarrow> APRState \<Rightarrow> world \<times> APRState" where
  \<comment> \<open>The diff and the report are printed only; the diff tool catches its own failures.\<close>
  "finish_success_node e w state =
     (case init_failure e of
        Some m \<Rightarrow>
          (w, state\<lparr>error_message := ''Error in success handler: '' @ m, success := False\<rparr>)
      | None \<Rightarrow> (w, state\<lparr>success := True\<rparr>))"

definition finish_failure_node :: "env \<Rightarrow> world \<Rightarrow> APRState \<Rightarrow> world \<times> APRState" where
  "finish_failure_node e w state = (w, state\<lparr>success := False\<rparr>)"

datatype node =
    LoadCode | LocalizeDefect | GeneratePatch | ApplyPatch | ValidatePatch
  | FinishSuccess | FinishFailure | END

definition should_continue_repair :: "APRState \<Rightarrow> node" where
  "should_continue_repair state =
     (if error_message state \<noteq> [] then FinishFailure
      else if tests_passed state then FinishSuccess
      else if attempts state \<ge> max_attempts state then FinishFailure
      else GeneratePatch)"

fun run_node :: "env \<Rightarrow> node \<Rightarrow> world \<Rightarrow> APRState \<Rightarrow> world \<times> APRState" where
  "run_node e LoadCode w state = load_code_node e w state"
| "run_node e LocalizeDefect w state = localize_defect_node e w state"
| "run_node e GeneratePatch w state = generate_patch_node e w state"
| "run_node e ApplyPatch w state = apply_patch_node e w state"
| "run_node e ValidatePatch w state = validate_patch_node e w state"
| "run_node e FinishSuccess w state = finish_success_node e w state"
| "run_node e FinishFailure w state = finish_failure_node e w state"
| "run_node e END w state = (w, state)"

fun next_node :: "node \<Rightarrow> APRState \<Rightarrow> node" where
  \<comment> \<open>The edges of \<open>create_apr_graph\<close>; the state is the one the node returned.\<close>
  "next_node LoadCode state = LocalizeDefect"
| "next_node LocalizeDefect state = GeneratePatch"
| "next_node GeneratePatch state = ApplyPatch"
| "next_node ApplyPatch state = ValidatePatch"
| "next_node ValidatePatch state = should_continue_repair state"
| "next_node FinishSuccess state = END"
| "next_node FinishFailure state = END"
| "next_node END state = END"

section \<open>The workflow graph\<close>

text \<open>
  The compiled graph executes one node at a time and replaces the session state by the
  dict the node returns; what the nodes print is no part of it. LangGraph aborts a run
  after 25 steps (its default recursion limit); a session of \<open>main\<close> or of the batch
  driver has \<open>max_attempts = 3\<close> and takes at most 12 steps, so the limit is left out.

  A run of the compiled graph is the list of the nodes executed, each with the state it
  returned. The run ends: a visit of \<open>generate_patch\<close> either uses up one attempt of
  the budget or leaves an error message, and both bound what can follow.
\<close>

definition budget :: "APRState \<Rightarrow> nat" where
  "budget state = nat (max_attempts state - attempts state)"

definition live :: "APRState \<Rightarrow> nat" where
  "live state = (if error_message state = [] then 3 * budget state + 3 else 0)"

fun potential :: "node \<Rightarrow> APRState \<Rightarrow> nat" where
  "potential END state = 0"
| "potential FinishSuccess state = 1"
| "potential FinishFailure state = 1"
| "potential ValidatePatch state = live state + 2"
| "potential ApplyPatch state = live state + 3"
| "potential GeneratePatch state = 3 * max (budget state) 1 + 4"
| "potential LocalizeDefect state = 3 * max (budget state) 1 + 5"
| "potential LoadCode state = 3 * max (budget state) 1 + 6"

lemmas node_defs =
  load_code_node_def localize_defect_node_def generate_patch_node_def apply_patch_node_def
  validate_patch_node_def finish_success_node_def finish_failure_node_def

lemma run_node_max_attempts [simp]:
  "max_attempts (snd (run_node e n w state)) = max_attempts state"
  by (cases n) (auto simp: node_defs Let_def split: option.splits sum.splits prod.splits)

lemma run_node_attempts [simp]:
  "n \<noteq> GeneratePatch \<Longrightarrow> attempts (snd (run_node e n w state)) = attempts state"
  by (cases n) (auto simp: node_defs Let_def split: option.splits sum.splits prod.splits)

lemma generate_attempts:
  "attempts (snd (run_node e GeneratePatch w state)) = attempts state + 1
   \<or> attempts (snd (run_node e GeneratePatch w state)) = attempts state
     \<and> error_message (snd (run_node e GeneratePatch w state)) \<noteq> []"
  by (auto simp: node_defs split: option.splits sum.splits)

lemma run_node_error_sticky:
  "n \<noteq> LoadCode \<Longrightarrow> error_message state \<noteq> [] \<Longrightarrow>
   error_message (snd (run_node e n w state)) \<noteq> []"
  by (cases n) (auto simp: node_defs Let_def split: option.splits sum.splits prod.splits)

lemma potential_decreases:
  assumes "n \<noteq> END"
  shows "potential (next_node n (snd (run_node e n w state))) (snd (run_node e n w state))
         < potential n state"
proof (cases n)
  case GeneratePatch
  then show ?thesis
    using generate_attempts [of e w state]
    by (auto simp: live_def budget_def simp del: run_node.simps)
next
  case ApplyPatch
  then show ?thesis
    using run_node_error_sticky [of ApplyPatch state e w]
    by (auto simp: live_def budget_def simp del: run_node.simps)
next
  case ValidatePatch
  then show ?thesis
    using run_node_error_sticky [of ValidatePatch state e w]
    by (auto simp: live_def budget_def should_continue_repair_def simp del: run_node.simps)
qed (use assms in \<open>auto simp: budget_def simp del: run_node.simps\<close>)

function run_graph :: "env \<Rightarrow> node \<Rightarrow> world \<Rightarrow> APRState \<Rightarrow> (node \<times> APRState) list" where
  "run_graph e n w state =
     (if n = END then []
      else (let r = run_node e n w state
            in (n, snd r) # run_graph e (next_node n (snd r)) (fst r) (snd r)))"
  by pat_completeness auto
termination
  by (relation "measure (\<lambda>(e, n, w, state). potential n state)")
     (auto simp: potential_decreases split_beta)

definition invoke :: "env \<Rightarrow> world \<Rightarrow> APRState \<Rightarrow> APRState" where
  "invoke e w state = snd (last (run_graph e LoadCode w state))"


text \<open>
  The number of visits of \<open>generate_patch\<close> in a run, the condition on a state about to
  enter a node under which the attempts stay within the budget, and the number of visits
  of \<open>generate_patch\<close> still possible from there.
\<close>

definition generate_runs :: "(node \<times> APRState) list \<Rightarrow> nat" where
  "generate_runs tr = length (filter (\<lambda>(n, t). n = GeneratePatch) tr)"

definition allowance :: "node \<Rightarrow> APRState \<Rightarrow> nat" where
  "allowance n state =
     (if n \<in> {LoadCode, LocalizeDefect, GeneratePatch} then budget state
      else if n \<in> {ApplyPatch, ValidatePatch} \<and> error_message state = [] then budget state
      else 0)"

definition within_budget :: "node \<Rightarrow> APRState \<Rightarrow> bool" where
  "within_budget n state \<longleftrightarrow>
     (if n \<in> {LoadCode, LocalizeDefect, GeneratePatch}
      then attempts state < max_attempts state
      else attempts state \<le> max_attempts state)"

section \<open>Example sessions\<close>

text \<open>A world with one file, and a test harness that prints nothing but white space.\<close>

definition silent_env :: env where
  "silent_env = \<lparr>init_failure = None,
                 subprocess_run = (\<lambda>w f. Completed [] ('' '' @ [NL])),
                 gemini_invoke = (\<lambda>p. Inr ''pass'')\<rparr>"

definition one_file :: "string \<Rightarrow> string \<Rightarrow> world" where
  "one_file path text =
     \<lparr>files = (\<lambda>p. if p = path then Content text else NotFound ''No such file or directory''),
      write_error = (\<lambda>p. None), test_runs = 0\<rparr>"

text \<open>A harness whose output always reports a failure at line 2, and a two-line program.\<close>

definition failing_env :: env where
  "failing_env =
     \<lparr>init_failure = None,
      subprocess_run = (\<lambda>w f. Completed ''FAILED: wrong result, line 2'' []),
      gemini_invoke = (\<lambda>p. Inr ''return n'')\<rparr>"

definition sample_code :: string where
  "sample_code = ''def f(n):'' @ [NL] @ ''    return n + 1'' @ [NL]"

text \<open>A harness that passes once line 2 of the program returns \<open>n\<close>.\<close>

definition passing_env :: env where
  "passing_env =
     \<lparr>init_failure = None,
      subprocess_run =
        (\<lambda>w f. if files w ''p/f.py'' = Content (''def f(n):'' @ [NL] @ ''    return n'' @ [NL])
                then Completed ''All tests passed'' []
                else Completed ''FAILED: wrong result, line 2'' []),
      gemini_invoke = (\<lambda>p. Inr ''return n'')\<rparr>"

text \<open>A test output that mentions a line of the input before the traceback.\<close>

definition traceback_output :: string where
  "traceback_output =
     ''input line 3 failed'' @ [NL] @ ''  File '' @ [CHR 0x22] @ ''bitcount.py'' @ [CHR 0x22]
     @ '', line 7, in bitcount''"

text \<open>The first pattern of the list: \<open>line\<close>, a space and digits.\<close>

definition generic_pattern :: "rx list" where
  "generic_pattern = [Lit ''line '', Digits]"

text \<open>Two replies of the language model: a fenced block, and a block after a sentence.\<close>

definition fenced_reply :: string where
  "fenced_reply = ''```python'' @ [NL] @ [NL] @ ''    return n - 1'' @ [NL] @ ''```'' @ [NL]"

definition prefaced_reply :: string where
  "prefaced_reply = ''Here is the fix:'' @ [NL] @ ''```python'' @ [NL] @ ''return n - 1'' @ [NL] @ ''```''"

text \<open>
  The indentation width of a line as the specification words it: the count of its leading
  white space.
\<close>

definition indentation_width :: "string \<Rightarrow> nat" where
  "indentation_width line = length (takeWhile py_isspace line)"

section \<open>Error classification\<close>

text \<open>
  The priority list as the specification words it: each category with the keywords that
  select it, in the order in which they are tried.
\<close>

definition error_priority :: "(string list \<times> string) list" where
  "error_priority =
     [([''indexerror''], ''Index Error (likely off-by-one or boundary issue)''),
      ([''keyerror''], ''Key Error (missing dictionary key)''),
      ([''typeerror''], ''Type Error (incorrect data type usage)''),
      ([''valueerror''], ''Value Error (invalid value)''),
      ([''nameerror''], ''Name Error (undefined variable)''),
      ([''assertion''], ''Logic Error (incorrect algorithm behavior)''),
      ([''infinite'', ''timeout''], ''Infinite Loop or Performance Issue'')]"

definition classify_by_priority :: "string \<Rightarrow> string" where
  "classify_by_priority out =
     (case find (\<lambda>(kws, category). list_ex (\<lambda>k. py_in k (lower out)) kws)
             error_priority of
        Some (kws, category) \<Rightarrow> category
      | None \<Rightarrow> ''General Error'')"

text \<open>\<open>py_in\<close> is the substring relation.\<close>

lemma startswith_iff: "startswith s t \<longleftrightarrow> (\<exists>b. s = t @ b)"
  unfolding startswith_def
  by (metis append_eq_conv_conj append_take_drop_id)

lemma py_in_iff: "py_in t s \<longleftrightarrow> (\<exists>a b. s = a @ t @ b)"
proof (induction s)
  case Nil
  then show ?case by auto
next
  case (Cons c s)
  show ?case
  proof
    assume "py_in t (c # s)"
    then consider "startswith (c # s) t" | "py_in t s" by auto
    then show "\<exists>a b. c # s = a @ t @ b"
    proof cases
      case 1
      then obtain b where "c # s = [] @ t @ b" by (auto simp: startswith_iff)
      then show ?thesis by blast
    next
      case 2
      with Cons obtain a b where "s = a @ t @ b" by auto
      then have "c # s = (c # a) @ t @ b" by simp
      then show ?thesis by blast
    qed
  next
    assume "\<exists>a b. c # s = a @ t @ b"
    then obtain a b where ab: "c # s = a @ t @ b" by blast
    show "py_in t (c # s)"
    proof (cases a)
      case Nil
      with ab have "startswith (c # s) t" by (auto simp: startswith_iff)
      then show ?thesis by simp
    next
      case (Cons x a')
      with ab have "s = a' @ t @ b" by simp
      with Cons.IH have "py_in t s" by blast
      then show ?thesis by simp
    qed
  qed
qed

text \<open>
  C7. \<open>identify_error_type\<close> returns the category of the first entry of the priority
  list index/bounds, missing-key, type-mismatch, invalid-value, undefined-name,
  assertion/logic, infinite-loop-or-timeout one of whose keywords occurs in the
  lower-cased text, and the generic category when none occurs. In particular the key
  error precedes the assertion error: a text that contains \<open>KeyError\<close> in any letter
  case, and not \<open>IndexError\<close>, which precedes both, is classified as a key error whether
  or not it also contains \<open>AssertionError\<close>.
\<close>

theorem identify_error_type_priority:
  "identify_error_type t = classify_by_priority t
   \<and> (py_in ''keyerror'' (lower t) \<and> \<not> py_in ''indexerror'' (lower t)
        \<longrightarrow> identify_error_type t = ''Key Error (missing dictionary key)'')"
  by (simp add: identify_error_type_def classify_by_priority_def error_priority_def Let_def)

theorem identify_error_type_priority_witness:
  "py_in ''keyerror'' (lower ''KeyError: 3 (AssertionError)'')
   \<and> py_in ''assertionerror'' (lower ''KeyError: 3 (AssertionError)'')
   \<and> \<not> py_in ''indexerror'' (lower ''KeyError: 3 (AssertionError)'')
   \<and> identify_error_type ''KeyError: 3 (AssertionError)'' = ''Key Error (missing dictionary key)''
   \<and> classify_by_priority ''KeyError: 3 (AssertionError)'' = ''Key Error (missing dictionary key)''"
proof -
  let ?t = "''KeyError: 3 (AssertionError)''"
  note main = identify_error_type_priority [of ?t]
  have k: "py_in ''keyerror'' (lower ?t)" by code_simp
  have a: "py_in ''assertionerror'' (lower ?t)" by code_simp
  have i: "\<not> py_in ''indexerror'' (lower ?t)" by code_simp
  from main k i have id: "identify_error_type ?t = ''Key Error (missing dictionary key)''"
    by blast
  from main have "classify_by_priority ?t = identify_error_type ?t" by simp
  with id have "classify_by_priority ?t = ''Key Error (missing dictionary key)''" by simp
  with k a i id show ?thesis by blast
qed

section \<open>Line extraction\<close>

text \<open>
  A search finds a match at some position, and a match at any position makes the search
  succeed. Each of the four later patterns contains \<open>line\<close>, a space and digits, so
  where one of them matches the first pattern matches too, a few characters further on.
\<close>

lemma re_search_position:
  "re_search p t = Some g \<Longrightarrow> \<exists>k. rx_match p (drop k t) [] = Some g"
proof (induction t)
  case Nil
  then show ?case by simp
next
  case (Cons c t)
  show ?case
  proof (cases "rx_match p (c # t) []")
    case None
    with Cons obtain k where "rx_match p (drop k t) [] = Some g" by auto
    then have "rx_match p (drop (Suc k) (c # t)) [] = Some g" by simp
    then show ?thesis by blast
  next
    case (Some x)
    with Cons.prems have "rx_match p (drop 0 (c # t)) [] = Some g" by simp
    then show ?thesis by blast
  qed
qed

lemma re_search_found:
  "rx_match p (drop k t) [] = Some g \<Longrightarrow> \<exists>g'. re_search p t = Some g'"
proof (induction t arbitrary: k)
  case Nil
  then show ?case by simp
next
  case (Cons c t)
  show ?case
  proof (cases k)
    case 0
    with Cons.prems show ?thesis by simp
  next
    case (Suc k')
    with Cons.prems have "rx_match p (drop k' t) [] = Some g" by simp
    from Cons.IH [OF this] show ?thesis by (auto split: option.splits)
  qed
qed

lemma rx_match_Lit:
  "rx_match (Lit l # r) s g = Some x \<Longrightarrow> rx_match r (drop (length l) s) g = Some x"
  by (simp split: if_splits)

lemma rx_match_Lit_append:
  assumes "rx_match (Lit (a @ b) # r) s g = Some x"
  shows "rx_match (Lit b # r) (drop (length a) s) g = Some x"
proof -
  from assms have len: "length a + length b \<le> length s"
    and low: "lower (take (length a + length b) s) = lower (a @ b)"
    and rest: "rx_match r (drop (length a + length b) s) g = Some x"
    by (simp_all split: if_splits)
  have "take (length a + length b) s = take (length a) s @ take (length b) (drop (length a) s)"
    by (simp add: take_add)
  with low have "lower (take (length a) s) @ lower (take (length b) (drop (length a) s))
                 = lower a @ lower b"
    by (simp add: lower_def)
  moreover from len have "length (lower (take (length a) s)) = length (lower a)"
    by (simp add: lower_def)
  ultimately have "lower (take (length b) (drop (length a) s)) = lower b" by simp
  moreover have "drop (length b) (drop (length a) s) = drop (length a + length b) s"
    by (simp add: add.commute)
  ultimately show ?thesis using len rest by simp
qed

lemma rx_match_NotQuotes:
  "rx_match (NotQuotes # r) s g = Some x \<Longrightarrow> \<exists>k. rx_match r (drop k s) g = Some x"
  by (auto simp: Let_def split: if_splits)

lemma rx_match_Digits_Lit:
  "rx_match [Digits, Lit l] s g = Some x \<Longrightarrow> \<exists>y. rx_match [Digits] s g = Some y"
  by (auto simp: Let_def split: if_splits)

lemma rx_match_Lit_cong:
  "length l = length l' \<Longrightarrow> lower l = lower l' \<Longrightarrow>
   rx_match (Lit l # r) s g = rx_match (Lit l' # r) s g"
  by simp

lemma generic_at_suffix:
  "rx_match generic_pattern (drop k t) g = Some x \<Longrightarrow> \<exists>g'. re_search generic_pattern t = Some g'"
proof -
  assume "rx_match generic_pattern (drop k t) g = Some x"
  then have "\<exists>y. rx_match generic_pattern (drop k t) [] = Some y"
    by (auto simp: generic_pattern_def Let_def split: if_splits)
  then show ?thesis using re_search_found by blast
qed

lemma lower_Line: "lower ''Line '' = lower ''line ''"
  by code_simp

lemma specific_implies_generic:
  assumes "p \<in> set (tl patterns)" "re_search p t = Some g"
  shows "\<exists>g'. re_search generic_pattern t = Some g'"
proof -
  from assms(2) obtain k where m: "rx_match p (drop k t) [] = Some g"
    using re_search_position by blast
  from assms(1) consider
      "p = [Lit (''File '' @ [CHR 0x22]), NotQuotes, Lit ([CHR 0x22] @ '', line ''), Digits]"
    | "p = [Lit ''Error on line '', Digits]"
    | "p = [Lit ''at line '', Digits]"
    | "p = [Lit ''Line '', Digits, Lit '':'']"
    by (auto simp: patterns_def)
  then show ?thesis
  proof cases
    case 1
    with m have "rx_match [NotQuotes, Lit ([CHR 0x22] @ '', line ''), Digits]
                   (drop (length (''File '' @ [CHR 0x22])) (drop k t)) [] = Some g"
      using rx_match_Lit by blast
    then obtain j where "rx_match [Lit (([CHR 0x22] @ '', '') @ ''line ''), Digits]
                   (drop j (drop (length (''File '' @ [CHR 0x22])) (drop k t))) [] = Some g"
      using rx_match_NotQuotes by fastforce
    then have "rx_match generic_pattern
        (drop (length ([CHR 0x22] @ '', ''))
           (drop j (drop (length (''File '' @ [CHR 0x22])) (drop k t)))) [] = Some g"
      unfolding generic_pattern_def by (rule rx_match_Lit_append)
    then have "rx_match generic_pattern
        (drop (length ([CHR 0x22] @ '', '') + j + length (''File '' @ [CHR 0x22]) + k) t) []
        = Some g"
      by (simp add: add.commute add.left_commute)
    then show ?thesis by (rule generic_at_suffix)
  next
    case 2
    with m have "rx_match [Lit (''Error on '' @ ''line ''), Digits] (drop k t) [] = Some g"
      by simp
    then have "rx_match generic_pattern (drop (length ''Error on '') (drop k t)) [] = Some g"
      unfolding generic_pattern_def by (rule rx_match_Lit_append)
    then have "rx_match generic_pattern (drop (length ''Error on '' + k) t) [] = Some g"
      by (simp add: add.commute)
    then show ?thesis by (rule generic_at_suffix)
  next
    case 3
    with m have "rx_match [Lit (''at '' @ ''line ''), Digits] (drop k t) [] = Some g"
      by simp
    then have "rx_match generic_pattern (drop (length ''at '') (drop k t)) [] = Some g"
      unfolding generic_pattern_def by (rule rx_match_Lit_append)
    then have "rx_match generic_pattern (drop (length ''at '' + k) t) [] = Some g"
      by (simp add: add.commute)
    then show ?thesis by (rule generic_at_suffix)
  next
    case 4
    with m have "rx_match [Lit ''Line '', Digits, Lit '':''] (drop k t) [] = Some g" by simp
    moreover have "rx_match [Lit ''Line '', Digits, Lit '':''] (drop k t) []
                   = rx_match [Lit ''line '', Digits, Lit '':''] (drop k t) []"
      by (rule rx_match_Lit_cong) (simp, rule lower_Line)
    ultimately have low: "rx_match [Lit ''line '', Digits, Lit '':''] (drop k t) [] = Some g"
      by (simp only:)
    then have "rx_match [Digits, Lit '':''] (drop (length ''line '') (drop k t)) [] = Some g"
      by (rule rx_match_Lit)
    then obtain y where y: "rx_match [Digits] (drop (length ''line '') (drop k t)) [] = Some y"
      using rx_match_Digits_Lit by blast
    have "rx_match generic_pattern (drop k t) [] = Some y"
    proof -
      from low have "length ''line '' \<le> length (drop k t)
            \<and> lower (take (length ''line '') (drop k t)) = lower ''line ''"
        by (simp split: if_splits)
      with y show ?thesis unfolding generic_pattern_def by simp
    qed
    then show ?thesis by (rule generic_at_suffix)
  qed
qed

lemma extract_error_line_number_generic:
  "extract_error_line_number t
   = (case re_search generic_pattern t of Some g \<Rightarrow> int_of_digits g | None \<Rightarrow> 1)"
proof (cases "re_search generic_pattern t")
  case (Some g)
  then show ?thesis
    by (simp add: extract_error_line_number_def patterns_def generic_pattern_def)
next
  case None
  have "re_search p t = None" if "p \<in> set (tl patterns)" for p
    using that None specific_implies_generic [of p t] by (cases "re_search p t") auto
  then have "\<forall>p \<in> set (tl patterns). re_search p t = None" by blast
  moreover have "first_match ps t = 1" if "\<forall>p \<in> set ps. re_search p t = None" for ps
    using that by (induction ps) auto
  ultimately have "first_match (tl patterns) t = 1" by blast
  with None show ?thesis
    by (simp add: extract_error_line_number_def patterns_def generic_pattern_def)
qed

text \<open>
  C6. The specification has the specific patterns tried before the generic one. The
  output below has a traceback line \<open>File "bitcount.py", line 7\<close>, which the specific
  pattern for tracebacks finds, after a sentence that contains \<open>line 3\<close>. In the source
  the generic pattern is the first of the list and matches the sentence, so the result is
  3 and not 7; by lemma \<open>extract_error_line_number_generic\<close> the four specific patterns
  never decide the result.
\<close>

theorem extract_error_line_number_generic_first:
  "re_search [Lit (''File '' @ [CHR 0x22]), NotQuotes, Lit ([CHR 0x22] @ '', line ''), Digits]
     traceback_output = Some ''7''
   \<and> re_search [Lit ''line '', Digits] traceback_output = Some ''3''
   \<and> extract_error_line_number traceback_output = 3"
  by code_simp

section \<open>The function-context window\<close>

text \<open>
  For a line of the file the upward scan stays inside the list of lines; past the end of
  the file its first read raises.
\<close>

lemma find_function_in_range:
  "n \<le> length lines \<Longrightarrow> \<exists>r. find_function lines n = Inr r"
  by (induction n) (auto simp: Let_def)

lemma find_function_out_of_range:
  "length lines < n \<Longrightarrow> find_function lines n = Inl (IndexError ''list index out of range'')"
  by (cases n) auto

lemma get_function_context_window:
  assumes "1 \<le> line_no" "line_no \<le> int (length (splitlines code))"
  shows "\<exists>fc. get_function_context code line_no = Inr fc
           \<and> context_lines fc
               = drop (nat (line_no - 5)) (take (nat (line_no + 5)) (splitlines code))
           \<and> context_start_line fc = max 1 (line_no - 4)"
proof -
  from assms have "nat line_no \<le> length (splitlines code)" by simp
  then obtain r where r: "find_function (splitlines code) (nat line_no) = Inr r"
    using find_function_in_range by blast
  with assms show ?thesis
    by (auto simp: get_function_context_def Let_def py_slice_def max_def min_def)
qed

lemma get_code_context_line_6:
  "get_code_context
     (py_join [NL] [''a1'', ''a2'', ''a3'', ''a4'', ''a5'', ''a6'', ''a7'', ''a8'', ''a9'',
                    ''a10'', ''a11'', ''a12'']) 6 5
   = py_join [NL] [''      1: a1'', ''      2: a2'', ''      3: a3'', ''      4: a4'',
                   ''      5: a5'', ''>>>   6: a6'', ''      7: a7'', ''      8: a8'',
                   ''      9: a9'', ''     10: a10'', ''     11: a11'']"
  by code_simp

text \<open>
  C8. The specification asks for the lines \<open>line_no - 5\<close> to \<open>line_no + 5\<close>, eleven lines around
  line 6 of a twelve-line file, starting at line 1. \<open>get_function_context\<close> returns the
  ten lines 2 to 11 and reports 2 as the starting line: its window starts at
  \<open>line_no - 4\<close> (lemma \<open>get_function_context_window\<close>), whereas \<open>get_code_context\<close>
  with radius 5 shows lines 1 to 11 (lemma \<open>get_code_context_line_6\<close>).
\<close>

theorem get_function_context_line_6:
  "get_function_context
     (py_join [NL] [''a1'', ''a2'', ''a3'', ''a4'', ''a5'', ''a6'', ''a7'', ''a8'', ''a9'',
                    ''a10'', ''a11'', ''a12'']) 6
   = Inr \<lparr>function_name = None, function_start_line = None, error_line = 6,
          context_lines = [''a2'', ''a3'', ''a4'', ''a5'', ''a6'', ''a7'', ''a8'', ''a9'',
                           ''a10'', ''a11''],
          context_start_line = 2\<rparr>"
  by code_simp

section \<open>The test oracle\<close>

lemma placeholder_passes: "output_passes ''No test output generated''"
  by code_simp


text \<open>
  C10. When the harness finishes and its combined output is empty or only white space,
  \<open>RunTestsTool\<close> returns the placeholder \<open>No test output generated\<close>; the placeholder
  contains neither \<open>FAIL\<close> nor \<open>ERROR\<close> in upper case, so the validation stage stores it
  and sets \<open>tests_passed\<close> to true.
\<close>

theorem empty_output_is_pass:
  assumes "init_failure e = None"
    and "subprocess_run e w (basename (file_path state)) = Completed out err"
    and "strip (out @ err) = []"
  shows "snd (RunTestsTool e w (file_path state)) = ''No test output generated''
         \<and> \<not> py_in ''FAIL'' (upper ''No test output generated'')
         \<and> \<not> py_in ''ERROR'' (upper ''No test output generated'')
         \<and> test_output (snd (validate_patch_node e w state)) = ''No test output generated''
         \<and> tests_passed (snd (validate_patch_node e w state))"
  using assms placeholder_passes
  by (simp add: RunTestsTool_def validate_patch_node_def Let_def output_passes_def)

theorem empty_output_is_pass_witness:
  "init_failure silent_env = None
   \<and> subprocess_run silent_env (one_file ''p/a.py'' ''x = 1'') (basename ''p/a.py'')
       = Completed [] ('' '' @ [NL])
   \<and> strip ([] @ ('' '' @ [NL])) = []
   \<and> tests_passed (snd (validate_patch_node silent_env (one_file ''p/a.py'' ''x = 1'')
                          (initial_state ''p/a.py'')))"
proof -
  have 1: "init_failure silent_env = None" by (simp add: silent_env_def)
  have 2: "subprocess_run silent_env (one_file ''p/a.py'' ''x = 1'')
             (basename (file_path (initial_state ''p/a.py''))) = Completed [] ('' '' @ [NL])"
    by (simp add: silent_env_def)
  have 3: "strip ([] @ ('' '' @ [NL])) = []" by code_simp
  from empty_output_is_pass [OF 1 2 3] 1 2 3 show ?thesis
    by (simp add: initial_state_def)
qed

section \<open>Patch application\<close>

text \<open>
  C4. For a readable file of \<open>total_lines\<close> lines and a \<open>line_no\<close> below 1 or above
  \<open>total_lines\<close>, \<open>ApplyPatchTool\<close> raises the range error (wrapped by its outer handler)
  and the world after the call is the world before it: nothing is written.
\<close>

theorem apply_out_of_range:
  assumes "files w path = Content raw"
    and "total_lines = length (readlines (universal_newlines raw))"
    and "line_no < 1 \<or> line_no > int total_lines"
  shows "ApplyPatchTool w path line_no new_line
         = (w, Inl (Exception (''Error applying patch to '' @ path @ '' at line ''
                      @ str_int line_no @ '': Line number '' @ str_int line_no
                      @ '' is out of range (1-'' @ str_int (int total_lines) @ '')'')))"
  using assms by (auto simp: ApplyPatchTool_def apply_error_def Let_def)

theorem apply_out_of_range_witness:
  "ApplyPatchTool (one_file ''p/a.py'' (''x = 1'' @ [NL] @ ''y = 2'' @ [NL])) ''p/a.py'' 3 ''z = 3''
   = (one_file ''p/a.py'' (''x = 1'' @ [NL] @ ''y = 2'' @ [NL]),
      Inl (Exception ''Error applying patch to p/a.py at line 3: Line number 3 is out of range (1-2)''))"
proof -
  let ?raw = "''x = 1'' @ [NL] @ ''y = 2'' @ [NL]"
  have 1: "files (one_file ''p/a.py'' ?raw) ''p/a.py'' = Content ?raw"
    by (simp add: one_file_def)
  have 2: "(2::nat) = length (readlines (universal_newlines ?raw))" by code_simp
  have 3: "(3::int) < 1 \<or> 3 > int 2" by simp
  have 4: "str_int 3 = ''3''" "str_int (int 2) = ''2''" by code_simp+
  from apply_out_of_range [OF 1 2 3, of "''z = 3''"] 4 show ?thesis by simp
qed


text \<open>
  Trimming a text that starts with a character that is no white space leaves a non-empty
  text that does not end in white space, so the line terminator is always appended to an
  indented replacement.
\<close>

lemma space_is_space [simp]: "py_isspace CHR '' ''" "py_isspace NL"
  by (simp_all add: py_isspace_def NL_def)

lemma lstrip_no_leading: "s \<noteq> [] \<Longrightarrow> \<not> py_isspace (hd s) \<Longrightarrow> lstrip s = s"
  by (cases s) (simp_all add: lstrip_def)

lemma rstrip_nonempty: "s \<noteq> [] \<Longrightarrow> \<not> py_isspace (hd s) \<Longrightarrow> rstrip s \<noteq> []"
proof -
  assume a: "s \<noteq> []" "\<not> py_isspace (hd s)"
  then have "\<not> py_isspace (last (rev s))" by (simp add: last_rev)
  moreover from a have "rev s \<noteq> []" by simp
  ultimately have "dropWhile py_isspace (rev s) \<noteq> []"
    by (metis dropWhile_eq_Nil_conv last_in_set)
  then show ?thesis by (simp add: rstrip_def)
qed

lemma rstrip_last: "rstrip s \<noteq> [] \<Longrightarrow> \<not> py_isspace (last (rstrip s))"
proof -
  assume "rstrip s \<noteq> []"
  then have ne: "dropWhile py_isspace (rev s) \<noteq> []" by (simp add: rstrip_def)
  then have "\<not> py_isspace (hd (dropWhile py_isspace (rev s)))" by (rule hd_dropWhile)
  with ne show ?thesis by (simp add: rstrip_def last_rev)
qed

lemma strip_nonempty: "s \<noteq> [] \<Longrightarrow> \<not> py_isspace (hd s) \<Longrightarrow> strip s \<noteq> []"
  by (simp add: strip_def lstrip_no_leading rstrip_nonempty)

lemma strip_last: "strip s \<noteq> [] \<Longrightarrow> \<not> py_isspace (last (strip s))"
  unfolding strip_def by (rule rstrip_last)

lemma not_endswith_NL: "t \<noteq> [] \<Longrightarrow> \<not> py_isspace (last t) \<Longrightarrow> \<not> endswith (p @ t) [NL]"
proof
  assume t: "t \<noteq> []" "\<not> py_isspace (last t)" and e: "endswith (p @ t) [NL]"
  from e have "drop (length (p @ t) - 1) (p @ t) = [NL]" by (simp add: endswith_def)
  moreover from t have "drop (length (p @ t) - 1) (p @ t) = [last (p @ t)]"
    by (metis append_butlast_last_id append_is_Nil_conv butlast_conv_take append_eq_conv_conj
        length_butlast)
  ultimately have "last (p @ t) = NL" by simp
  with t show False by simp
qed

lemma lstrip_width: "length s - length (lstrip s) = indentation_width s"
proof -
  have "length (takeWhile py_isspace s) + length (dropWhile py_isspace s) = length s"
    by (metis length_append takeWhile_dropWhile_id)
  then show ?thesis by (simp add: lstrip_def indentation_width_def)
qed

lemma patched_line_indented:
  assumes "candidate \<noteq> []" "\<not> py_isspace (hd candidate)"
    and "W = indentation_width original_line" "1 \<le> W"
  shows "patched_line original_line candidate = replicate W CHR '' '' @ strip candidate @ [NL]"
proof -
  from assms(1,2) have ne: "strip candidate \<noteq> []" by (rule strip_nonempty)
  have ns: "\<not> startswith candidate (replicate W CHR '' '')"
  proof
    assume "startswith candidate (replicate W CHR '' '')"
    then have "take W candidate = replicate W CHR '' ''" by (simp add: startswith_def)
    then have "hd (take W candidate) = hd (replicate W CHR '' '')" by simp
    moreover from assms have "hd (take W candidate) = hd candidate"
      by (cases candidate; cases W) auto
    moreover from assms have "hd (replicate W CHR '' '') = CHR '' ''" by (cases W) auto
    ultimately have "hd candidate = CHR '' ''" by simp
    then have "py_isspace (hd candidate)" by (simp only: space_is_space)
    with assms(2) show False by contradiction
  qed
  from ne have "\<not> endswith (replicate W CHR '' '' @ strip candidate) [NL]"
    by (intro not_endswith_NL strip_last)
  with ne ns assms(3) show ?thesis by (simp add: patched_line_def Let_def lstrip_width)
qed

lemma strip_Nil [simp]: "strip [] = []"
  by (simp add: strip_def lstrip_def rstrip_def)

lemma patched_line_as_given:
  assumes "candidate = [] \<or> indentation_width original_line = 0"
  shows "patched_line original_line candidate
         = (if endswith candidate [NL] then candidate else candidate @ [NL])"
proof -
  from assms have "strip candidate = []
      \<or> startswith candidate (replicate (indentation_width original_line) CHR '' '')"
    by (auto simp: startswith_def)
  then show ?thesis by (auto simp: patched_line_def Let_def lstrip_width)
qed

text \<open>
  The lines that \<open>readlines\<close> returns, joined, are the text that was read; a text
  without carriage return is read as it is stored.
\<close>

lemma concat_readlines_acc: "concat (readlines_acc cur s) = rev cur @ s"
  by (induction s arbitrary: cur) auto

lemma concat_readlines: "concat (readlines s) = s"
  by (simp add: readlines_def concat_readlines_acc)

lemma universal_newlines_no_CR: "CR \<notin> set s \<Longrightarrow> universal_newlines s = s"
  by (induction s) auto

lemma concat_update:
  "i < length xs \<Longrightarrow>
   concat (xs[i := y]) = concat (take i xs) @ y @ concat (drop (Suc i) xs)"
  by (simp add: upd_conv_take_nth_drop)

lemma concat_split:
  "i < length xs \<Longrightarrow> concat xs = concat (take i xs) @ xs ! i @ concat (drop (Suc i) xs)"
  by (metis concat_update list_update_id)

text \<open>
  C5 (amended). A candidate without leading white space is applied at a valid \<open>line_no\<close>
  whose original line is not blank and starts with \<open>W\<close> white-space characters. If the
  candidate is not empty and \<open>W\<close> is at least 1, the stored line is exactly \<open>W\<close> spaces,
  the trimmed candidate and one line terminator. If the candidate is empty or \<open>W\<close> is 0,
  the candidate is stored untrimmed, with a line terminator appended unless it already
  ends with one. The file and the returned text are the text before the line, the stored
  line and the text after the line, both as they were read: unchanged when the file has
  no carriage return, and with every CR LF or CR written back as LF otherwise.
\<close>

theorem apply_indentation:
  assumes "files w path = Content raw" and "write_error w path = None"
    and "lines = readlines (universal_newlines raw)"
    and "1 \<le> line_no" and "line_no \<le> int (length lines)"
    and "i = nat (line_no - 1)"
    and "lstrip (lines ! i) \<noteq> []"
    and "W = indentation_width (lines ! i)"
    and "candidate = [] \<or> \<not> py_isspace (hd candidate)"
    and "stored = (if candidate \<noteq> [] \<and> 1 \<le> W
                   then replicate W CHR '' '' @ strip candidate @ [NL]
                   else if endswith candidate [NL] then candidate else candidate @ [NL])"
    and "before = concat (take i lines)" and "after = concat (drop (Suc i) lines)"
  shows "ApplyPatchTool w path line_no candidate
         = (w\<lparr>files := (files w)(path := Content (before @ stored @ after))\<rparr>,
            Inr (before @ stored @ after))
         \<and> universal_newlines raw = before @ lines ! i @ after
         \<and> (CR \<notin> set raw \<longrightarrow> raw = before @ lines ! i @ after)"
proof -
  have pl: "patched_line (lines ! i) candidate = stored"
  proof (cases "candidate \<noteq> [] \<and> 1 \<le> W")
    case True
    with assms(8,9,10) show ?thesis by (simp add: patched_line_indented)
  next
    case False
    with assms(8) have "candidate = [] \<or> indentation_width (lines ! i) = 0" by auto
    from patched_line_as_given [OF this] False assms(10) show ?thesis by auto
  qed
  from assms(4,5,6) have i: "i < length lines" by auto
  from i have "concat (lines[i := stored]) = before @ stored @ after"
    unfolding assms(11,12) by (rule concat_update)
  with pl i assms(1-6) have run: "ApplyPatchTool w path line_no candidate
         = (w\<lparr>files := (files w)(path := Content (before @ stored @ after))\<rparr>,
            Inr (before @ stored @ after))"
    by (simp add: ApplyPatchTool_def Let_def)
  from i have "concat lines = before @ lines ! i @ after"
    unfolding assms(11,12) by (rule concat_split)
  with assms(3) have read: "universal_newlines raw = before @ lines ! i @ after"
    by (simp add: concat_readlines)
  with run show ?thesis by (auto simp: universal_newlines_no_CR)
qed

theorem apply_indentation_witness:
  "ApplyPatchTool (one_file ''p/a.py'' (''def f():'' @ [NL] @ ''    return 1'' @ [NL] @ ''x = 0''))
          ''p/a.py'' 2 ''return 2  ''
   = ((one_file ''p/a.py'' (''def f():'' @ [NL] @ ''    return 1'' @ [NL] @ ''x = 0''))
        \<lparr>files := (files (one_file ''p/a.py''
                             (''def f():'' @ [NL] @ ''    return 1'' @ [NL] @ ''x = 0'')))
                   (''p/a.py'' := Content ((''def f():'' @ [NL]) @ (''    return 2'' @ [NL])
                                            @ ''x = 0''))\<rparr>,
      Inr ((''def f():'' @ [NL]) @ (''    return 2'' @ [NL]) @ ''x = 0''))
   \<and> ''def f():'' @ [NL] @ ''    return 1'' @ [NL] @ ''x = 0''
       = (''def f():'' @ [NL]) @ (''    return 1'' @ [NL]) @ ''x = 0''"
proof -
  let ?raw = "''def f():'' @ [NL] @ ''    return 1'' @ [NL] @ ''x = 0''"
  let ?w = "one_file ''p/a.py'' ?raw"
  let ?lines = "[''def f():'' @ [NL], ''    return 1'' @ [NL], ''x = 0'']"
  have 1: "files ?w ''p/a.py'' = Content ?raw" by (simp add: one_file_def)
  have 2: "write_error ?w ''p/a.py'' = None" by (simp add: one_file_def)
  have 3: "?lines = readlines (universal_newlines ?raw)" by code_simp
  have 4: "(1::int) \<le> 2" by simp
  have 5: "(2::int) \<le> int (length ?lines)" by simp
  have 6: "(1::nat) = nat (2 - 1)" by simp
  have 7: "lstrip (?lines ! 1) \<noteq> []" by code_simp
  have 8: "(4::nat) = indentation_width (?lines ! 1)" by code_simp
  have 9: "''return 2  '' = [] \<or> \<not> py_isspace (hd ''return 2  '')" by code_simp
  have 10: "''    return 2'' @ [NL]
           = (if ''return 2  '' \<noteq> [] \<and> 1 \<le> (4::nat)
              then replicate 4 CHR '' '' @ strip ''return 2  '' @ [NL]
              else if endswith ''return 2  '' [NL] then ''return 2  ''
                   else ''return 2  '' @ [NL])"
    by code_simp
  have 11: "''def f():'' @ [NL] = concat (take 1 ?lines)" by simp
  have 12: "''x = 0'' = concat (drop (Suc 1) ?lines)" by simp
  have 13: "CR \<notin> set ?raw" by code_simp
  have 14: "?lines ! 1 = ''    return 1'' @ [NL]" by simp
  from apply_indentation [OF 1 2 3 4 5 6 7 8 9 10 11 12] 13 14 show ?thesis
    by (simp only:) simp
qed

text \<open>
  With \<open>W = 0\<close> the trailing spaces of the candidate stay in the file; with \<open>W = 4\<close>
  an empty candidate is stored as a bare line terminator, without the four spaces; and in
  a file with CR LF line ends the line before the patched one loses its carriage return.
\<close>

theorem apply_indentation_counterexample:
  "\<not> py_isspace (hd ''x = 2  '')
   \<and> indentation_width (''x = 1'' @ [NL]) = 0
   \<and> files (fst (ApplyPatchTool (one_file ''p/a.py'' (''x = 1'' @ [NL])) ''p/a.py'' 1
                     ''x = 2  '')) ''p/a.py''
       = Content (''x = 2  '' @ [NL])
   \<and> ''x = 2  '' @ [NL] \<noteq> replicate 0 CHR '' '' @ strip ''x = 2  '' @ [NL]
   \<and> indentation_width (''    y = 1'' @ [NL]) = 4
   \<and> files (fst (ApplyPatchTool (one_file ''p/a.py'' (''    y = 1'' @ [NL])) ''p/a.py'' 1 []))
       ''p/a.py''
       = Content [NL]
   \<and> [NL] \<noteq> replicate 4 CHR '' '' @ strip [] @ [NL]
   \<and> files (fst (ApplyPatchTool (one_file ''p/a.py'' (''a'' @ [CR, NL] @ ''b'' @ [CR, NL]))
                     ''p/a.py'' 2 ''c'')) ''p/a.py''
       = Content (''a'' @ [NL] @ ''c'' @ [NL])
   \<and> ''a'' @ [NL] \<noteq> ''a'' @ [CR, NL]"
  by code_simp

section \<open>Sanitising the reply of the language model\<close>

lemma split_on_nonempty: "split_on c s \<noteq> []"
  by (induction s) (auto split: list.splits)

lemma split_on_no_sep: "x \<in> set (split_on c s) \<Longrightarrow> c \<notin> set x"
proof (induction s arbitrary: x)
  case Nil
  then show ?case by simp
next
  case (Cons a s)
  show ?case
  proof (cases "a = c")
    case True
    with Cons show ?thesis by auto
  next
    case False
    obtain p ps where ps: "split_on c s = p # ps"
      using split_on_nonempty [of c s] by (cases "split_on c s") auto
    with False Cons.prems have "x = a # p \<or> x \<in> set ps" by simp
    moreover have "c \<notin> set p" using Cons.IH [of p] ps by simp
    moreover have "\<And>y. y \<in> set ps \<Longrightarrow> c \<notin> set y" using Cons.IH ps by simp
    ultimately show ?thesis using False by auto
  qed
qed

lemma first_code_line_in_set: "first_code_line ls = Some l \<Longrightarrow> l \<in> set ls"
  by (induction ls) (auto split: if_splits)

lemma first_code_line_skips:
  assumes "\<forall>b\<in>set skipped. strip b = [] \<or> startswith (strip b) ''```''"
    and "strip l \<noteq> []" and "\<not> startswith (strip l) ''```''"
  shows "first_code_line (skipped @ l # rest) = Some l"
  using assms by (induction skipped) auto

text \<open>
  C9 (amended). When the trimmed reply contains a fence marker and begins with a fence
  line, sanitisation yields the first line after it that is not blank and is no fence,
  provided only blank lines lie in between (the first non-empty line inside the block);
  this patch line contains no line feed. When the reply contains no fence marker,
  sanitisation yields the trimmed reply, whatever the number of its lines.
\<close>

theorem clean_response_cases:
  "(py_in ''```'' (strip r)
      \<and> split_on NL (strip r) = fence # blanks @ l # rest
      \<and> startswith (strip fence) ''```''
      \<and> (\<forall>b\<in>set blanks. strip b = [])
      \<and> strip l \<noteq> [] \<and> \<not> startswith (strip l) ''```''
    \<longrightarrow> clean_response r = l \<and> NL \<notin> set (clean_response r))
   \<and> (\<not> py_in ''```'' (strip r) \<longrightarrow> clean_response r = strip r)"
proof (intro conjI impI)
  assume a: "py_in ''```'' (strip r)
      \<and> split_on NL (strip r) = fence # blanks @ l # rest
      \<and> startswith (strip fence) ''```''
      \<and> (\<forall>b\<in>set blanks. strip b = [])
      \<and> strip l \<noteq> [] \<and> \<not> startswith (strip l) ''```''"
  then have "\<forall>b\<in>set (fence # blanks). strip b = [] \<or> startswith (strip b) ''```''"
    by simp
  with a have "first_code_line ((fence # blanks) @ l # rest) = Some l"
    by (intro first_code_line_skips) auto
  with a show "clean_response r = l" by (simp add: clean_response_def Let_def)
  moreover from a have "l \<in> set (split_on NL (strip r))" by simp
  ultimately show "NL \<notin> set (clean_response r)" by (simp add: split_on_no_sep)
next
  assume "\<not> py_in ''```'' (strip r)"
  then show "clean_response r = strip r" by (simp add: clean_response_def Let_def)
qed

theorem clean_response_cases_witness:
  "clean_response fenced_reply = ''    return n - 1''
   \<and> NL \<notin> set (clean_response fenced_reply)
   \<and> clean_response ''  return n - 1  '' = ''return n - 1''"
proof -
  have 1: "py_in ''```'' (strip fenced_reply)
      \<and> split_on NL (strip fenced_reply) = ''```python'' # [[]] @ ''    return n - 1'' # [''```'']
      \<and> startswith (strip ''```python'') ''```''
      \<and> (\<forall>b\<in>set [[]]. strip b = [])
      \<and> strip ''    return n - 1'' \<noteq> [] \<and> \<not> startswith (strip ''    return n - 1'') ''```''"
    by code_simp
  have 2: "\<not> py_in ''```'' (strip ''  return n - 1  '')" by code_simp
  have 3: "strip ''  return n - 1  '' = ''return n - 1''" by code_simp
  from clean_response_cases [of fenced_reply "''```python''" "[[]]" "''    return n - 1''" "[''```'']"] 1
  have "clean_response fenced_reply = ''    return n - 1'' \<and> NL \<notin> set (clean_response fenced_reply)"
    by blast
  moreover from clean_response_cases [of "''  return n - 1  ''"] 2 3
  have "clean_response ''  return n - 1  '' = ''return n - 1''" by simp
  ultimately show ?thesis by blast
qed


text \<open>
  A reply with a sentence before the block yields that sentence, not a line of the block;
  a two-line reply without fences is stored with its line feed.
\<close>

theorem clean_response_counterexample:
  "py_in ''```'' prefaced_reply
   \<and> split_on NL (strip prefaced_reply)
       = [''Here is the fix:'', ''```python'', ''return n - 1'', ''```'']
   \<and> clean_response prefaced_reply = ''Here is the fix:''
   \<and> \<not> py_in ''```'' (''x = 1'' @ [NL] @ ''y = 2'')
   \<and> clean_response (''x = 1'' @ [NL] @ ''y = 2'') = ''x = 1'' @ [NL] @ ''y = 2''
   \<and> NL \<in> set (clean_response (''x = 1'' @ [NL] @ ''y = 2''))"
  by code_simp

section \<open>Runs of the repair controller\<close>

declare run_graph.simps [simp del]

lemma run_graph_END [simp]: "run_graph e END w state = []"
  by (simp add: run_graph.simps)

lemma run_graph_step:
  "n \<noteq> END \<Longrightarrow>
   run_graph e n w state
   = (n, snd (run_node e n w state))
     # run_graph e (next_node n (snd (run_node e n w state)))
         (fst (run_node e n w state)) (snd (run_node e n w state))"
  by (subst run_graph.simps) (simp add: Let_def)

lemma generate_ok:
  "error_message (snd (run_node e GeneratePatch w state)) = [] \<Longrightarrow>
   attempts (snd (run_node e GeneratePatch w state)) = attempts state + 1"
  using generate_attempts [of e w state] by auto

lemma validate_ok:
  "error_message (snd (run_node e ValidatePatch w state)) = [] \<Longrightarrow>
   tests_passed (snd (run_node e ValidatePatch w state))
   = output_passes (test_output (snd (run_node e ValidatePatch w state)))"
  by (auto simp: validate_patch_node_def Let_def split: option.splits prod.splits)

lemma finish_failure_fields [simp]:
  "success (snd (run_node e FinishFailure w state)) = False"
  "error_message (snd (run_node e FinishFailure w state)) = error_message state"
  by (simp_all add: finish_failure_node_def)

lemma finish_success_ok:
  "error_message (snd (run_node e FinishSuccess w state)) = [] \<Longrightarrow>
   success (snd (run_node e FinishSuccess w state))"
  by (auto simp: finish_success_node_def split: option.splits)

lemma within_budget_step:
  assumes "n \<noteq> END" "within_budget n state"
  shows "within_budget (next_node n (snd (run_node e n w state))) (snd (run_node e n w state))"
proof (cases n)
  case GeneratePatch
  with assms show ?thesis
    using generate_attempts [of e w state]
    by (auto simp: within_budget_def simp del: run_node.simps)
next
  case ValidatePatch
  with assms show ?thesis
    by (auto simp: within_budget_def should_continue_repair_def simp del: run_node.simps)
qed (use assms in \<open>auto simp: within_budget_def simp del: run_node.simps\<close>)

lemma within_budget_le:
  "n \<noteq> END \<Longrightarrow> within_budget n state \<Longrightarrow>
   attempts (snd (run_node e n w state)) \<le> max_attempts (snd (run_node e n w state))"
  using within_budget_step [of n state e w]
  by (cases n) (auto simp: within_budget_def should_continue_repair_def simp del: run_node.simps split: if_splits)

lemma attempts_bounded:
  "within_budget n state \<Longrightarrow>
   \<forall>(m, t) \<in> set (run_graph e n w state).
     attempts t \<le> max_attempts t \<and> max_attempts t = max_attempts state"
proof (induction e n w state rule: run_graph.induct)
  case (1 e n w state)
  show ?case
  proof (cases "n = END")
    case True
    then show ?thesis by simp
  next
    case False
    let ?r = "run_node e n w state"
    from False "1.prems" have wb: "within_budget (next_node n (snd ?r)) (snd ?r)"
      by (rule within_budget_step)
    from "1.IH" [OF False refl wb]
    have "\<forall>(m, t) \<in> set (run_graph e (next_node n (snd ?r)) (fst ?r) (snd ?r)).
            attempts t \<le> max_attempts t \<and> max_attempts t = max_attempts state"
      by simp
    moreover from False "1.prems" have "attempts (snd ?r) \<le> max_attempts (snd ?r)"
      by (rule within_budget_le)
    ultimately show ?thesis
      using False by (subst run_graph_step) auto
  qed
qed


lemma allowance_step:
  assumes "n \<noteq> END" "within_budget n state"
  shows "(if n = GeneratePatch then 1 else 0)
         + allowance (next_node n (snd (run_node e n w state))) (snd (run_node e n w state))
         \<le> allowance n state"
proof (cases n)
  case GeneratePatch
  with assms show ?thesis
    using generate_attempts [of e w state]
    by (auto simp: allowance_def within_budget_def budget_def simp del: run_node.simps)
next
  case ApplyPatch
  with assms show ?thesis
    using run_node_error_sticky [of ApplyPatch state e w]
    by (auto simp: allowance_def budget_def simp del: run_node.simps)
next
  case ValidatePatch
  with assms show ?thesis
    using run_node_error_sticky [of ValidatePatch state e w]
    by (auto simp: allowance_def budget_def should_continue_repair_def simp del: run_node.simps)
qed (use assms in \<open>auto simp: allowance_def budget_def simp del: run_node.simps\<close>)

lemma generate_runs_bounded:
  "within_budget n state \<Longrightarrow> generate_runs (run_graph e n w state) \<le> allowance n state"
proof (induction e n w state rule: run_graph.induct)
  case (1 e n w state)
  show ?case
  proof (cases "n = END")
    case True
    then show ?thesis by (simp add: generate_runs_def)
  next
    case False
    let ?r = "run_node e n w state"
    from False "1.prems" have "within_budget (next_node n (snd ?r)) (snd ?r)"
      by (rule within_budget_step)
    from "1.IH" [OF False refl this]
    have "generate_runs (run_graph e (next_node n (snd ?r)) (fst ?r) (snd ?r))
          \<le> allowance (next_node n (snd ?r)) (snd ?r)" .
    moreover have "generate_runs (run_graph e n w state)
        = (if n = GeneratePatch then 1 else 0)
          + generate_runs (run_graph e (next_node n (snd ?r)) (fst ?r) (snd ?r))"
      using False by (subst run_graph_step) (auto simp: generate_runs_def)
    ultimately show ?thesis
      using allowance_step [OF False "1.prems", of e w] by linarith
  qed
qed

lemma loop_exhausts:
  assumes "\<forall>(m, t) \<in> set (run_graph e GeneratePatch w state). error_message t = []"
    and "\<forall>(m, t) \<in> set (run_graph e GeneratePatch w state).
           m = ValidatePatch \<longrightarrow> \<not> output_passes (test_output t)"
    and "attempts state < max_attempts state"
    and "k = nat (max_attempts state - attempts state)"
  shows "\<exists>t. last (run_graph e GeneratePatch w state) = (FinishFailure, t)
             \<and> attempts t = max_attempts state \<and> \<not> success t
             \<and> generate_runs (run_graph e GeneratePatch w state) = k"
  using assms
proof (induction k arbitrary: w state)
  case 0
  then show ?case by simp
next
  case (Suc k)
  define r1 where "r1 = run_node e GeneratePatch w state"
  define r2 where "r2 = run_node e ApplyPatch (fst r1) (snd r1)"
  define r3 where "r3 = run_node e ValidatePatch (fst r2) (snd r2)"
  define rest where "rest = run_graph e (should_continue_repair (snd r3)) (fst r3) (snd r3)"
  have unroll: "run_graph e GeneratePatch w state
      = (GeneratePatch, snd r1) # (ApplyPatch, snd r2) # (ValidatePatch, snd r3) # rest"
    unfolding r1_def r2_def r3_def rest_def
    by (simp add: run_graph_step [of GeneratePatch] run_graph_step [of ApplyPatch]
        run_graph_step [of ValidatePatch] del: run_node.simps)
  from Suc.prems(1) unroll have e1: "error_message (snd r1) = []"
    and e3: "error_message (snd r3) = []" by auto
  from e1 have a1: "attempts (snd r1) = attempts state + 1"
    unfolding r1_def by (rule generate_ok)
  have a3: "attempts (snd r3) = attempts state + 1"
    unfolding r3_def r2_def using a1 by (simp del: run_node.simps)
  have m3: "max_attempts (snd r3) = max_attempts state"
    unfolding r3_def r2_def r1_def by (simp del: run_node.simps)
  from Suc.prems(2) unroll have "\<not> output_passes (test_output (snd r3))" by auto
  with e3 have p3: "\<not> tests_passed (snd r3)"
    unfolding r3_def using validate_ok by blast
  show ?case
  proof (cases "attempts state + 1 \<ge> max_attempts state")
    case True
    with e3 p3 a3 m3 have "should_continue_repair (snd r3) = FinishFailure"
      by (simp add: should_continue_repair_def)
    then have rest: "rest = [(FinishFailure, snd (run_node e FinishFailure (fst r3) (snd r3)))]"
      unfolding rest_def by (simp add: run_graph_step [of FinishFailure] del: run_node.simps)
    from True Suc.prems(3,4) have "k = 0" by linarith
    with unroll rest a3 m3 True Suc.prems(3) show ?thesis
      by (simp add: generate_runs_def del: run_node.simps)
  next
    case False
    with e3 p3 a3 m3 have sc: "should_continue_repair (snd r3) = GeneratePatch"
      by (simp add: should_continue_repair_def)
    then have rest: "rest = run_graph e GeneratePatch (fst r3) (snd r3)"
      unfolding rest_def by simp
    have sub: "set rest \<subseteq> set (run_graph e GeneratePatch w state)"
      using unroll by auto
    have "\<exists>t. last (run_graph e GeneratePatch (fst r3) (snd r3)) = (FinishFailure, t)
             \<and> attempts t = max_attempts (snd r3) \<and> \<not> success t
             \<and> generate_runs (run_graph e GeneratePatch (fst r3) (snd r3)) = k"
    proof (rule Suc.IH)
      show "\<forall>(m, t) \<in> set (run_graph e GeneratePatch (fst r3) (snd r3)). error_message t = []"
        using Suc.prems(1) sub rest by blast
      show "\<forall>(m, t) \<in> set (run_graph e GeneratePatch (fst r3) (snd r3)).
              m = ValidatePatch \<longrightarrow> \<not> output_passes (test_output t)"
        using Suc.prems(2) sub rest by blast
      show "attempts (snd r3) < max_attempts (snd r3)" using False a3 m3 by simp
      show "k = nat (max_attempts (snd r3) - attempts (snd r3))"
        using Suc.prems(4) a3 m3 by linarith
    qed
    then obtain t where t: "last rest = (FinishFailure, t)" "attempts t = max_attempts state"
      "\<not> success t" "generate_runs rest = k"
      using rest m3 by auto
    have "rest \<noteq> []"
      unfolding rest by (subst run_graph_step) simp_all
    with unroll t show ?thesis by (simp add: generate_runs_def)
  qed
qed


lemma run_graph_prefix:
  "run_graph e LoadCode w state
   = (LoadCode, snd (run_node e LoadCode w state))
     # (LocalizeDefect,
        snd (run_node e LocalizeDefect (fst (run_node e LoadCode w state))
               (snd (run_node e LoadCode w state))))
     # run_graph e GeneratePatch
         (fst (run_node e LocalizeDefect (fst (run_node e LoadCode w state))
                 (snd (run_node e LoadCode w state))))
         (snd (run_node e LocalizeDefect (fst (run_node e LoadCode w state))
                 (snd (run_node e LoadCode w state))))"
  by (simp add: run_graph_step [of LoadCode] run_graph_step [of LocalizeDefect]
      del: run_node.simps)

lemma run_graph_nonempty: "n \<noteq> END \<Longrightarrow> run_graph e n w state \<noteq> []"
  by (subst run_graph_step) simp_all

text \<open>
  C2. A session starts with \<open>max_attempts = 3\<close> and \<open>attempts = 0\<close>. In every state of the
  run \<open>attempts\<close> is at most \<open>max_attempts\<close>, and \<open>generate_patch\<close> is visited at most three
  times. If moreover no stage leaves an error message and the test output after every
  validation fails, the run ends in \<open>finish_failure\<close> with \<open>attempts = 3\<close>, after exactly
  three visits of \<open>generate_patch\<close>.
\<close>

theorem bounded_retry:
  assumes "max_attempts state = 3" and "attempts state = 0"
  shows "(\<forall>(n, t) \<in> set (run_graph e LoadCode w state).
            attempts t \<le> max_attempts t \<and> max_attempts t = 3)
         \<and> generate_runs (run_graph e LoadCode w state) \<le> 3
         \<and> ((\<forall>(n, t) \<in> set (run_graph e LoadCode w state). error_message t = [])
              \<and> (\<forall>(n, t) \<in> set (run_graph e LoadCode w state).
                    n = ValidatePatch \<longrightarrow> \<not> output_passes (test_output t))
            \<longrightarrow> (\<exists>t. last (run_graph e LoadCode w state) = (FinishFailure, t)
                      \<and> invoke e w state = t \<and> attempts t = 3 \<and> \<not> success t)
                \<and> generate_runs (run_graph e LoadCode w state) = 3)"
proof (intro conjI impI)
  from assms have wb: "within_budget LoadCode state" by (simp add: within_budget_def)
  from attempts_bounded [OF wb, of e w] assms(1)
  show "\<forall>(n, t) \<in> set (run_graph e LoadCode w state).
          attempts t \<le> max_attempts t \<and> max_attempts t = 3"
    by auto
  from generate_runs_bounded [OF wb, of e w] assms
  show "generate_runs (run_graph e LoadCode w state) \<le> 3"
    by (simp add: allowance_def budget_def)
next
  assume hyp: "(\<forall>(n, t) \<in> set (run_graph e LoadCode w state). error_message t = [])
     \<and> (\<forall>(n, t) \<in> set (run_graph e LoadCode w state).
           n = ValidatePatch \<longrightarrow> \<not> output_passes (test_output t))"
  define r1 where "r1 = run_node e LoadCode w state"
  define r2 where "r2 = run_node e LocalizeDefect (fst r1) (snd r1)"
  define loop where "loop = run_graph e GeneratePatch (fst r2) (snd r2)"
  have unroll: "run_graph e LoadCode w state
                = (LoadCode, snd r1) # (LocalizeDefect, snd r2) # loop"
    unfolding r1_def r2_def loop_def by (rule run_graph_prefix)
  have a2: "attempts (snd r2) = 0" and m2: "max_attempts (snd r2) = 3"
    unfolding r2_def r1_def using assms by (simp_all del: run_node.simps)
  have "\<exists>t. last (run_graph e GeneratePatch (fst r2) (snd r2)) = (FinishFailure, t)
           \<and> attempts t = max_attempts (snd r2) \<and> \<not> success t
           \<and> generate_runs (run_graph e GeneratePatch (fst r2) (snd r2)) = 3"
  proof (rule loop_exhausts)
    show "\<forall>(m, t) \<in> set (run_graph e GeneratePatch (fst r2) (snd r2)). error_message t = []"
      using hyp unroll loop_def by auto
    show "\<forall>(m, t) \<in> set (run_graph e GeneratePatch (fst r2) (snd r2)).
            m = ValidatePatch \<longrightarrow> \<not> output_passes (test_output t)"
      using hyp unroll loop_def by auto
    show "attempts (snd r2) < max_attempts (snd r2)" using a2 m2 by simp
    show "3 = nat (max_attempts (snd r2) - attempts (snd r2))" using a2 m2 by simp
  qed
  then obtain t where t: "last loop = (FinishFailure, t)" "attempts t = 3" "\<not> success t"
    "generate_runs loop = 3"
    using m2 loop_def by auto
  have "loop \<noteq> []" unfolding loop_def by (rule run_graph_nonempty) simp
  with unroll t have l: "last (run_graph e LoadCode w state) = (FinishFailure, t)" by simp
  with t show "\<exists>t. last (run_graph e LoadCode w state) = (FinishFailure, t)
                 \<and> invoke e w state = t \<and> attempts t = 3 \<and> \<not> success t"
    by (simp add: invoke_def)
  from unroll t show "generate_runs (run_graph e LoadCode w state) = 3"
    by (simp add: generate_runs_def)
qed

theorem bounded_retry_witness:
  "max_attempts (initial_state ''p/f.py'') = 3 \<and> attempts (initial_state ''p/f.py'') = 0
   \<and> map fst (run_graph failing_env LoadCode (one_file ''p/f.py'' sample_code)
                 (initial_state ''p/f.py''))
       = [LoadCode, LocalizeDefect, GeneratePatch, ApplyPatch, ValidatePatch,
          GeneratePatch, ApplyPatch, ValidatePatch, GeneratePatch, ApplyPatch, ValidatePatch,
          FinishFailure]
   \<and> attempts (invoke failing_env (one_file ''p/f.py'' sample_code) (initial_state ''p/f.py'')) = 3
   \<and> \<not> success (invoke failing_env (one_file ''p/f.py'' sample_code) (initial_state ''p/f.py''))"
proof -
  let ?tr = "run_graph failing_env LoadCode (one_file ''p/f.py'' sample_code)
               (initial_state ''p/f.py'')"
  have 1: "max_attempts (initial_state ''p/f.py'') = 3" by (simp add: initial_state_def)
  have 2: "attempts (initial_state ''p/f.py'') = 0" by (simp add: initial_state_def)
  have 3: "\<forall>(n, t) \<in> set ?tr. error_message t = []" by code_simp
  have 4: "\<forall>(n, t) \<in> set ?tr. n = ValidatePatch \<longrightarrow> \<not> output_passes (test_output t)"
    by code_simp
  have 5: "map fst ?tr = [LoadCode, LocalizeDefect, GeneratePatch, ApplyPatch, ValidatePatch,
          GeneratePatch, ApplyPatch, ValidatePatch, GeneratePatch, ApplyPatch, ValidatePatch,
          FinishFailure]"
    by code_simp
  from bounded_retry [OF 1 2, of failing_env "one_file ''p/f.py'' sample_code"] 3 4
  have "\<exists>t. invoke failing_env (one_file ''p/f.py'' sample_code) (initial_state ''p/f.py'') = t
            \<and> attempts t = 3 \<and> \<not> success t"
    by blast
  with 1 2 5 show ?thesis by simp
qed


lemma run_graph_five:
  "run_graph e LoadCode w state
   = (let r1 = run_node e LoadCode w state;
          r2 = run_node e LocalizeDefect (fst r1) (snd r1);
          r3 = run_node e GeneratePatch (fst r2) (snd r2);
          r4 = run_node e ApplyPatch (fst r3) (snd r3);
          r5 = run_node e ValidatePatch (fst r4) (snd r4)
      in [(LoadCode, snd r1), (LocalizeDefect, snd r2), (GeneratePatch, snd r3),
          (ApplyPatch, snd r4), (ValidatePatch, snd r5)]
         @ run_graph e (should_continue_repair (snd r5)) (fst r5) (snd r5))"
  by (simp add: run_graph_step [of LoadCode] run_graph_step [of LocalizeDefect]
      run_graph_step [of GeneratePatch] run_graph_step [of ApplyPatch]
      run_graph_step [of ValidatePatch] Let_def del: run_node.simps)

lemma run_graph_finish:
  "n = FinishSuccess \<or> n = FinishFailure \<Longrightarrow>
   run_graph e n w state = [(n, snd (run_node e n w state))]"
  by (auto simp: run_graph_step [of FinishSuccess] run_graph_step [of FinishFailure]
      simp del: run_node.simps)

text \<open>
  C3. A session starts with \<open>attempts = 0\<close>, no stage leaves an error message, and the
  test output of the first validation contains neither \<open>FAIL\<close> nor \<open>ERROR\<close> in upper
  case. Then the run is load, localize, generate, apply, validate, \<open>finish_success\<close>, and
  it ends with \<open>attempts = 1\<close> and \<open>success\<close> true.
\<close>

theorem first_patch_success:
  assumes "attempts state = 0"
    and "\<forall>(n, t) \<in> set (run_graph e LoadCode w state). error_message t = []"
    and "find (\<lambda>(n, t). n = ValidatePatch) (run_graph e LoadCode w state)
         = Some (ValidatePatch, v)"
    and "\<not> py_in ''FAIL'' (upper (test_output v))"
    and "\<not> py_in ''ERROR'' (upper (test_output v))"
  shows "map fst (run_graph e LoadCode w state)
         = [LoadCode, LocalizeDefect, GeneratePatch, ApplyPatch, ValidatePatch, FinishSuccess]
         \<and> (\<exists>t. last (run_graph e LoadCode w state) = (FinishSuccess, t)
                \<and> invoke e w state = t \<and> attempts t = 1 \<and> success t)"
proof -
  define r1 where "r1 = run_node e LoadCode w state"
  define r2 where "r2 = run_node e LocalizeDefect (fst r1) (snd r1)"
  define r3 where "r3 = run_node e GeneratePatch (fst r2) (snd r2)"
  define r4 where "r4 = run_node e ApplyPatch (fst r3) (snd r3)"
  define r5 where "r5 = run_node e ValidatePatch (fst r4) (snd r4)"
  define rest where "rest = run_graph e (should_continue_repair (snd r5)) (fst r5) (snd r5)"
  have unroll: "run_graph e LoadCode w state
      = [(LoadCode, snd r1), (LocalizeDefect, snd r2), (GeneratePatch, snd r3),
         (ApplyPatch, snd r4), (ValidatePatch, snd r5)] @ rest"
    unfolding r1_def r2_def r3_def r4_def r5_def rest_def
    by (simp add: run_graph_five Let_def del: run_node.simps)
  from assms(2) unroll have e3: "error_message (snd r3) = []"
    and e5: "error_message (snd r5) = []" by auto
  from assms(3) unroll have v: "v = snd r5" by simp
  from e3 have "attempts (snd r3) = attempts (snd r2) + 1"
    unfolding r3_def by (rule generate_ok)
  then have a5: "attempts (snd r5) = 1"
    unfolding r5_def r4_def r2_def r1_def using assms(1) by (simp del: run_node.simps)
  from e5 have "tests_passed (snd r5) = output_passes (test_output (snd r5))"
    unfolding r5_def by (rule validate_ok)
  with assms(4,5) v have "tests_passed (snd r5)" by (simp add: output_passes_def)
  with e5 have "should_continue_repair (snd r5) = FinishSuccess"
    by (simp add: should_continue_repair_def)
  then have rest: "rest = [(FinishSuccess, snd (run_node e FinishSuccess (fst r5) (snd r5)))]"
    unfolding rest_def by (simp add: run_graph_finish del: run_node.simps)
  define t where "t = snd (run_node e FinishSuccess (fst r5) (snd r5))"
  from assms(2) unroll rest have "error_message t = []" by (simp add: t_def del: run_node.simps)
  then have "success t" unfolding t_def by (rule finish_success_ok)
  moreover have "attempts t = 1" unfolding t_def using a5 by (simp del: run_node.simps)
  moreover have "last (run_graph e LoadCode w state) = (FinishSuccess, t)"
    using unroll rest by (simp add: t_def del: run_node.simps)
  moreover have "map fst (run_graph e LoadCode w state)
         = [LoadCode, LocalizeDefect, GeneratePatch, ApplyPatch, ValidatePatch, FinishSuccess]"
    using unroll rest by (simp del: run_node.simps)
  ultimately show ?thesis by (simp add: invoke_def)
qed

theorem first_patch_success_witness:
  "map fst (run_graph passing_env LoadCode (one_file ''p/f.py'' sample_code)
              (initial_state ''p/f.py''))
   = [LoadCode, LocalizeDefect, GeneratePatch, ApplyPatch, ValidatePatch, FinishSuccess]
   \<and> attempts (invoke passing_env (one_file ''p/f.py'' sample_code) (initial_state ''p/f.py'')) = 1
   \<and> success (invoke passing_env (one_file ''p/f.py'' sample_code) (initial_state ''p/f.py''))"
proof -
  let ?tr = "run_graph passing_env LoadCode (one_file ''p/f.py'' sample_code)
               (initial_state ''p/f.py'')"
  let ?v = "snd (the (find (\<lambda>(n, t). n = ValidatePatch) ?tr))"
  have 1: "attempts (initial_state ''p/f.py'') = 0" by (simp add: initial_state_def)
  have 2: "\<forall>(n, t) \<in> set ?tr. error_message t = []" by code_simp
  have 3: "find (\<lambda>(n, t). n = ValidatePatch) ?tr = Some (ValidatePatch, ?v)" by code_simp
  have 4: "\<not> py_in ''FAIL'' (upper (test_output ?v))" by code_simp
  have 5: "\<not> py_in ''ERROR'' (upper (test_output ?v))" by code_simp
  from first_patch_success [OF 1 2 3 4 5] show ?thesis by auto
qed

lemma load_failure_message:
  "init_failure e \<noteq> None \<or> (\<exists>ex. LoadCodeTool w (file_path state) = Inl ex) \<Longrightarrow>
   error_message (snd (run_node e LoadCode w state)) \<noteq> []"
  by (auto simp: load_code_node_def split: option.splits sum.splits)

lemma generate_returns:
  "init_failure e = None \<Longrightarrow> gemini_invoke e (repair_prompt_format (build_prompt_input state)) = Inr content \<Longrightarrow>
   attempts (snd (run_node e GeneratePatch w state)) = attempts state + 1"
  by (simp add: generate_patch_node_def)

lemma generate_raises:
  "init_failure e \<noteq> None \<or> (\<exists>m. gemini_invoke e (repair_prompt_format (build_prompt_input state)) = Inl m) \<Longrightarrow>
   attempts (snd (run_node e GeneratePatch w state)) = attempts state"
  by (auto simp: generate_patch_node_def split: option.splits)

text \<open>
  C1 (amended). When loading fails, \<open>load_code_node\<close> sets \<open>error_message\<close>; the graph
  has no edge out of the linear chain before validation, so localize, generate, apply and
  validate still run, once each, and the router then goes to \<open>finish_failure\<close>. The
  final state has an error message and \<open>success\<close> false. \<open>attempts\<close> was raised by one if
  the call of the language model returned, and is unchanged if it raised.
\<close>

theorem load_failure_run:
  assumes "init_failure e \<noteq> None \<or> (\<exists>ex. LoadCodeTool w (file_path state) = Inl ex)"
  shows "map fst (run_graph e LoadCode w state)
         = [LoadCode, LocalizeDefect, GeneratePatch, ApplyPatch, ValidatePatch, FinishFailure]
         \<and> error_message (snd (hd (run_graph e LoadCode w state))) \<noteq> []
         \<and> error_message (invoke e w state) \<noteq> []
         \<and> \<not> success (invoke e w state)
         \<and> (attempts (invoke e w state) = attempts state
              \<or> attempts (invoke e w state) = attempts state + 1)
         \<and> (init_failure e = None \<and> (\<forall>p. \<exists>content. gemini_invoke e p = Inr content)
              \<longrightarrow> attempts (invoke e w state) = attempts state + 1)
         \<and> (init_failure e \<noteq> None \<or> (\<forall>p. \<exists>m. gemini_invoke e p = Inl m)
              \<longrightarrow> attempts (invoke e w state) = attempts state)"
proof -
  define r1 where "r1 = run_node e LoadCode w state"
  define r2 where "r2 = run_node e LocalizeDefect (fst r1) (snd r1)"
  define r3 where "r3 = run_node e GeneratePatch (fst r2) (snd r2)"
  define r4 where "r4 = run_node e ApplyPatch (fst r3) (snd r3)"
  define r5 where "r5 = run_node e ValidatePatch (fst r4) (snd r4)"
  define t where "t = snd (run_node e FinishFailure (fst r5) (snd r5))"
  from assms have e1: "error_message (snd r1) \<noteq> []"
    unfolding r1_def by (rule load_failure_message)
  then have e2: "error_message (snd r2) \<noteq> []"
    unfolding r2_def by (intro run_node_error_sticky) simp_all
  then have e3: "error_message (snd r3) \<noteq> []"
    unfolding r3_def by (intro run_node_error_sticky) simp_all
  then have e4: "error_message (snd r4) \<noteq> []"
    unfolding r4_def by (intro run_node_error_sticky) simp_all
  then have e5: "error_message (snd r5) \<noteq> []"
    unfolding r5_def by (intro run_node_error_sticky) simp_all
  then have sc: "should_continue_repair (snd r5) = FinishFailure"
    by (simp add: should_continue_repair_def)
  have unroll: "run_graph e LoadCode w state
      = [(LoadCode, snd r1), (LocalizeDefect, snd r2), (GeneratePatch, snd r3),
         (ApplyPatch, snd r4), (ValidatePatch, snd r5), (FinishFailure, t)]"
    unfolding r1_def r2_def r3_def r4_def r5_def t_def using sc
    by (simp add: run_graph_five run_graph_finish Let_def r1_def r2_def r3_def r4_def r5_def
        del: run_node.simps)
  then have inv: "invoke e w state = t" by (simp add: invoke_def)
  have a2: "attempts (snd r2) = attempts state"
    unfolding r2_def r1_def by (simp del: run_node.simps)
  have at: "attempts t = attempts (snd r3)"
    unfolding t_def r5_def r4_def by (simp del: run_node.simps)
  have "attempts (snd r3) = attempts (snd r2) + 1 \<or> attempts (snd r3) = attempts (snd r2)"
    unfolding r3_def using generate_attempts [of e "fst r2" "snd r2"] by auto
  with a2 at have choice: "attempts t = attempts state \<or> attempts t = attempts state + 1"
    by auto
  have ok: "attempts t = attempts state + 1"
    if "init_failure e = None \<and> (\<forall>p. \<exists>content. gemini_invoke e p = Inr content)"
  proof -
    from that obtain content where "gemini_invoke e (repair_prompt_format (build_prompt_input (snd r2))) = Inr content"
      by blast
    with that have "attempts (snd r3) = attempts (snd r2) + 1"
      unfolding r3_def by (intro generate_returns) auto
    with a2 at show ?thesis by simp
  qed
  have ko: "attempts t = attempts state"
    if "init_failure e \<noteq> None \<or> (\<forall>p. \<exists>m. gemini_invoke e p = Inl m)"
  proof -
    from that have "init_failure e \<noteq> None
        \<or> (\<exists>m. gemini_invoke e (repair_prompt_format (build_prompt_input (snd r2))) = Inl m)" by blast
    then have "attempts (snd r3) = attempts (snd r2)"
      unfolding r3_def by (rule generate_raises)
    with a2 at show ?thesis by simp
  qed
  have "error_message t \<noteq> []" "\<not> success t"
    unfolding t_def using e5 by (simp_all del: run_node.simps)
  with unroll inv e1 choice ok ko show ?thesis by simp
qed

theorem load_failure_run_witness:
  "LoadCodeTool (one_file ''p/f.py'' sample_code) (file_path (initial_state ''p/g.py''))
   = Inl (FileNotFoundError ''Could not find file: p/g.py'')
   \<and> map fst (run_graph failing_env LoadCode (one_file ''p/f.py'' sample_code)
                 (initial_state ''p/g.py''))
       = [LoadCode, LocalizeDefect, GeneratePatch, ApplyPatch, ValidatePatch, FinishFailure]
   \<and> error_message (invoke failing_env (one_file ''p/f.py'' sample_code)
                       (initial_state ''p/g.py'')) \<noteq> []
   \<and> \<not> success (invoke failing_env (one_file ''p/f.py'' sample_code) (initial_state ''p/g.py''))
   \<and> attempts (invoke failing_env (one_file ''p/f.py'' sample_code) (initial_state ''p/g.py''))
       = 1"
proof -
  have 1: "LoadCodeTool (one_file ''p/f.py'' sample_code) (file_path (initial_state ''p/g.py''))
           = Inl (FileNotFoundError ''Could not find file: p/g.py'')"
    by (simp add: LoadCodeTool_def one_file_def initial_state_def)
  then have 2: "init_failure failing_env \<noteq> None
      \<or> (\<exists>ex. LoadCodeTool (one_file ''p/f.py'' sample_code)
                (file_path (initial_state ''p/g.py'')) = Inl ex)"
    by blast
  have 3: "init_failure failing_env = None
           \<and> (\<forall>p. \<exists>content. gemini_invoke failing_env p = Inr content)"
    by (simp add: failing_env_def)
  have 4: "attempts (initial_state ''p/g.py'') = 0" by (simp add: initial_state_def)
  from load_failure_run [OF 2] 1 3 4 show ?thesis by simp
qed

text \<open>
  The file \<open>p/g.py\<close> does not exist and the language model answers: all six nodes run,
  and the final state has \<open>attempts = 1\<close>, not 0.
\<close>

theorem load_failure_counterexample:
  "LoadCodeTool (one_file ''p/f.py'' sample_code) ''p/g.py''
   = Inl (FileNotFoundError ''Could not find file: p/g.py'')
   \<and> map fst (run_graph failing_env LoadCode (one_file ''p/f.py'' sample_code)
                 (initial_state ''p/g.py''))
       = [LoadCode, LocalizeDefect, GeneratePatch, ApplyPatch, ValidatePatch, FinishFailure]
   \<and> attempts (invoke failing_env (one_file ''p/f.py'' sample_code) (initial_state ''p/g.py''))
       = 1"
  by code_simp

end
